theory Spec2Isabelle
  imports Main "HOL-Library.Word"
begin

section \<open>Common definitions\<close>

type_synonym u32 = "32 word"

text \<open>Ways in which a modelled function can stop without returning a value: a failed
  \<open>ASSERT\<close>, an access outside a container (undefined behaviour in the source), a thrown
  standard-library exception, or the exhaustion of the recursion budget of the model.\<close>

datatype fault = AssertFailed | OutOfRange | Thrown | OutOfFuel

section \<open>IntervalMap.cpp: distribute\<close>

text \<open>The body of the \<open>for (n = 0; n != numNodes; ++n)\<close> loop. The loop state is the array
  \<open>newSizes\<close>, the pair \<open>posPair\<close> and the running \<open>sum\<close>; all arithmetic is on \<open>uint32_t\<close>.\<close>

function distribute_loop ::
  "u32 \<Rightarrow> u32 \<Rightarrow> u32 \<Rightarrow> u32 \<Rightarrow> u32 \<Rightarrow> u32 list \<times> (u32 \<times> u32) \<times> u32
     \<Rightarrow> fault + (u32 list \<times> (u32 \<times> u32) \<times> u32)" where
  "distribute_loop numNodes perNode extra position n (newSizes, posPair, sum_acc) =
     (if n \<noteq> numNodes then
        if length newSizes \<le> unat n then Inl OutOfRange
        else
          let sz = perNode + (if n < extra then 1 else 0);
              newSizes' = newSizes[unat n := sz];
              sum' = sum_acc + sz;
              posPair' = (if fst posPair = numNodes \<and> sum' > position
                          then (n, position - (sum' - newSizes' ! unat n)) else posPair)
          in distribute_loop numNodes perNode extra position (n + 1) (newSizes', posPair', sum')
      else Inr (newSizes, posPair, sum_acc))"
  by pat_completeness auto
termination
proof (relation "measure (\<lambda>(numNodes, perNode, extra, position, n, s). unat (numNodes - n))")
  show "wf (measure (\<lambda>(numNodes, perNode, extra, position, n, s). unat (numNodes - n)))"
    by simp
next
  fix numNodes perNode extra position n :: u32
  fix newSizes :: "u32 list" and posPair :: "u32 \<times> u32" and sum_acc x xa xb xc :: u32
  fix xn :: "u32 list" and xp :: "u32 \<times> u32"
  assume ne: "n \<noteq> numNodes"
  then have nz: "numNodes - n \<noteq> 0" by simp
  have eq: "numNodes - (n + 1) = (numNodes - n) - 1" by simp
  have "unat ((numNodes - n) - 1) = unat (numNodes - n) - 1"
    using nz by (rule unat_minus_one)
  then have "unat (numNodes - (n + 1)) = unat (numNodes - n) - 1"
    by (simp only: eq)
  moreover have "unat (numNodes - n) \<noteq> 0" using nz by (simp add: unat_eq_zero)
  ultimately show "((numNodes, perNode, extra, position, n + 1, xn, xp, xc),
          (numNodes, perNode, extra, position, n, newSizes, posPair, sum_acc))
         \<in> measure (\<lambda>(numNodes, perNode, extra, position, n, s). unat (numNodes - n))"
    by simp
qed

definition distribute ::
  "u32 \<Rightarrow> u32 \<Rightarrow> u32 \<Rightarrow> u32 list \<Rightarrow> u32 \<Rightarrow> bool \<Rightarrow> fault + (u32 list \<times> (u32 \<times> u32))" where
  "distribute numNodes numElements capacity newSizes position grow =
     (let g = (if grow then 1 else 0) in
      if \<not> (numElements + g \<le> numNodes * capacity) then Inl AssertFailed
      else if \<not> (position \<le> numElements) then Inl AssertFailed
      else if numNodes = 0 then Inr (newSizes, (0, 0))
      else
        let perNode = (numElements + g) div numNodes;
            extra = (numElements + g) mod numNodes
        in case distribute_loop numNodes perNode extra position 0 (newSizes, (numNodes, 0), 0) of
             Inl e \<Rightarrow> Inl e
           | Inr (sizes, posPair, sum_acc) \<Rightarrow>
               if sum_acc \<noteq> numElements + g then Inl AssertFailed
               else if grow then
                 (if \<not> (fst posPair < numNodes) then Inl AssertFailed
                  else if sizes ! unat (fst posPair) = 0 then Inl AssertFailed
                  else Inr (sizes[unat (fst posPair) := sizes ! unat (fst posPair) - 1], posPair))
               else Inr (sizes, posPair))"

declare distribute_loop.simps [simp del]

text \<open>The split the specification describes, in its own words: node \<open>n\<close> of \<open>nodes\<close> nodes
  receives \<open>\<lfloor>tot / nodes\<rfloor>\<close> elements plus one extra when \<open>n < tot mod nodes\<close>;
  \<open>prefixSize\<close> is the number of elements held by the nodes before node \<open>n\<close>.\<close>

definition evenSize :: "nat \<Rightarrow> nat \<Rightarrow> nat \<Rightarrow> nat" where
  "evenSize tot nodes n = tot div nodes + (if n < tot mod nodes then 1 else 0)"

definition prefixSize :: "nat \<Rightarrow> nat \<Rightarrow> nat \<Rightarrow> nat" where
  "prefixSize tot nodes n = (\<Sum>k<n. evenSize tot nodes k)"

text \<open>Loop invariant on \<open>posPair\<close> after \<open>m\<close> iterations: either the position has not been
  reached yet, or \<open>posPair\<close> names the node and offset at which it falls.\<close>

definition posInv :: "nat \<Rightarrow> nat \<Rightarrow> u32 \<Rightarrow> nat \<Rightarrow> nat \<Rightarrow> u32 \<times> u32 \<Rightarrow> bool" where
  "posInv T N numNodes P m pp \<longleftrightarrow>
     (pp = (numNodes, 0) \<and> prefixSize T N m \<le> P) \<or>
     (unat (fst pp) < m \<and> prefixSize T N (unat (fst pp)) + unat (snd pp) = P \<and>
      unat (snd pp) < evenSize T N (unat (fst pp)))"

section \<open>MathFuncs.cpp: \<open>$countbits\<close>\<close>

text \<open>A four-state bit (\<open>logic_t\<close>): its \<open>value\<close> is 0, 1, \<open>X_VALUE\<close> or \<open>Z_VALUE\<close>.\<close>

datatype logic_t = L0 | L1 | LX | LZ

text \<open>Modelled from the spec: the class \<open>SVInt\<close> is used by \<open>MathFuncs.cpp\<close> but defined
  outside the sources at hand. It is modelled as a four-state bit vector, least significant
  bit first, with a sign flag; the width is the number of bits. \<open>countZeros\<close>, \<open>countOnes\<close>,
  \<open>countXs\<close> and \<open>countZs\<close> count the bits of each value, \<open>operator[]\<close> reads one bit (an
  index outside the vector reads as X), and \<open>SVInt(bits, value, isSigned)\<close> holds the low
  \<open>bits\<close> bits of a 64-bit value.\<close>

record SVInt =
  signFlag :: bool
  bitvals :: "logic_t list"

definition bitWidth :: "SVInt \<Rightarrow> nat" where
  "bitWidth v = length (bitvals v)"

definition countZeros :: "SVInt \<Rightarrow> nat" where
  "countZeros v = count_list (bitvals v) L0"

definition countOnes :: "SVInt \<Rightarrow> nat" where
  "countOnes v = count_list (bitvals v) L1"

definition countXs :: "SVInt \<Rightarrow> nat" where
  "countXs v = count_list (bitvals v) LX"

definition countZs :: "SVInt \<Rightarrow> nat" where
  "countZs v = count_list (bitvals v) LZ"

definition bitAt :: "SVInt \<Rightarrow> nat \<Rightarrow> logic_t" where
  "bitAt v i = (if i < length (bitvals v) then bitvals v ! i else LX)"

definition SVInt_of_u64 :: "nat \<Rightarrow> 64 word \<Rightarrow> bool \<Rightarrow> SVInt" where
  "SVInt_of_u64 bits val isSigned =
     \<lparr>signFlag = isSigned, bitvals = map (\<lambda>i. if bit val i then L1 else L0) [0..<bits]\<rparr>"

text \<open>The number an \<open>SVInt\<close> without unknown bits stands for: the bits read as a binary
  numeral, in two's complement when the sign flag is set.\<close>

fun unsignedValue :: "logic_t list \<Rightarrow> nat" where
  "unsignedValue [] = 0"
| "unsignedValue (b # bs) = (if b = L1 then 1 else 0) + 2 * unsignedValue bs"

definition toInt :: "SVInt \<Rightarrow> int" where
  "toInt v =
     (let u = unsignedValue (bitvals v); w = bitWidth v
      in if signFlag v \<and> 0 < w \<and> 2 ^ (w - 1) \<le> u then int u - 2 ^ w else int u)"

text \<open>The result of evaluating an argument expression: \<open>nullptr\<close> (a bad value), an integer,
  or a value of another type, on which \<open>integer()\<close> throws.\<close>

datatype ConstantValue = CVBad | CVInteger SVInt | CVOther

definition integer :: "ConstantValue \<Rightarrow> fault + SVInt" where
  "integer v = (case v of CVInteger i \<Rightarrow> Inr i | _ \<Rightarrow> Inl Thrown)"

text \<open>The array \<open>seen[4]\<close> together with \<open>count\<close>.\<close>

record countbits_state =
  seen0 :: bool
  seen1 :: bool
  seenX :: bool
  seenZ :: bool
  count :: "64 word"

text \<open>The loop \<open>for (auto arg : args.subspan(1))\<close> of \<open>CountBitsFunction::eval\<close>; the
  arguments are given by the values they evaluate to. \<open>Inr None\<close> is the early
  \<open>return nullptr\<close>.\<close>

fun countbits_loop ::
  "SVInt \<Rightarrow> ConstantValue list \<Rightarrow> countbits_state \<Rightarrow> fault + countbits_state option" where
  "countbits_loop iv [] st = Inr (Some st)"
| "countbits_loop iv (v # rest) st =
     (if v = CVBad then Inr None
      else case integer v of
        Inl e \<Rightarrow> Inl e
      | Inr vi \<Rightarrow>
          let b = bitAt vi 0 in
          countbits_loop iv rest
           (if b = L0 then
              (if \<not> seen0 st then st\<lparr>count := count st + of_nat (countZeros iv), seen0 := True\<rparr>
               else st)
            else if b = L1 then
              (if \<not> seen1 st then st\<lparr>count := count st + of_nat (countOnes iv), seen1 := True\<rparr>
               else st)
            else if b = LX then
              (if \<not> seenX st then st\<lparr>count := count st + of_nat (countXs iv), seenX := True\<rparr>
               else st)
            else if b = LZ then
              (if \<not> seenZ st then st\<lparr>count := count st + of_nat (countZs iv), seenZ := True\<rparr>
               else st)
            else st))"

definition CountBitsFunction_eval :: "ConstantValue list \<Rightarrow> fault + ConstantValue" where
  "CountBitsFunction_eval args =
     (case args of
        [] \<Rightarrow> Inl OutOfRange
      | a0 # ctrl \<Rightarrow>
          if a0 = CVBad then Inr CVBad
          else case integer a0 of
            Inl e \<Rightarrow> Inl e
          | Inr iv \<Rightarrow>
              (case countbits_loop iv ctrl
                      \<lparr>seen0 = False, seen1 = False, seenX = False, seenZ = False, count = 0\<rparr> of
                 Inl e \<Rightarrow> Inl e
               | Inr None \<Rightarrow> Inr CVBad
               | Inr (Some st) \<Rightarrow> Inr (CVInteger (SVInt_of_u64 32 (count st) True))))"

text \<open>The least significant bit of a control argument, as read by the loop.\<close>

definition controlBit :: "ConstantValue \<Rightarrow> logic_t option" where
  "controlBit v = (case v of CVInteger i \<Rightarrow> Some (bitAt i 0) | _ \<Rightarrow> None)"

text \<open>Whether a bit value has been counted already, and the sum of the counts of the values
  counted so far.\<close>

definition seenBit :: "countbits_state \<Rightarrow> logic_t \<Rightarrow> bool" where
  "seenBit st b = (case b of L0 \<Rightarrow> seen0 st | L1 \<Rightarrow> seen1 st | LX \<Rightarrow> seenX st | LZ \<Rightarrow> seenZ st)"

definition countOf :: "SVInt \<Rightarrow> logic_t \<Rightarrow> nat" where
  "countOf iv b = count_list (bitvals iv) b"

definition seenTotal :: "SVInt \<Rightarrow> countbits_state \<Rightarrow> nat" where
  "seenTotal iv st = (if seen0 st then countOf iv L0 else 0) + (if seen1 st then countOf iv L1 else 0)
     + (if seenX st then countOf iv LX else 0) + (if seenZ st then countOf iv LZ else 0)"

text \<open>A four-bit value \<open>1X01\<close> and one-bit control arguments, for evaluation.\<close>

definition iv_example :: SVInt where
  "iv_example = \<lparr>signFlag = False, bitvals = [L1, L0, LX, L1]\<rparr>"

definition ctl :: "logic_t \<Rightarrow> ConstantValue" where
  "ctl b = CVInteger \<lparr>signFlag = False, bitvals = [b]\<rparr>"

section \<open>Tokens, trivia, locations and diagnostics\<close>

text \<open>Modelled from the spec: the token classes are declared outside the sources at hand.
  A token carries its kind, its raw text, its leading trivia, a source location and, for a
  directive, the directive kind. Only the kinds the macro engine distinguishes are listed;
  keywords and all remaining kinds are tagged by a number.\<close>

datatype TokenKind =
    Unknown | EndOfFile | Identifier | StringLiteral | IntegerLiteral
  | Directive | MacroQuote | MacroPaste | EmptyMacroArgument | LineContinuation
  | Slash | Star | Comma | Equals
  | OpenParenthesis | CloseParenthesis | OpenBracket | CloseBracket | OpenBrace | CloseBrace
  | Keyword nat | OtherKind nat

datatype SyntaxKind = UnknownSyntax | MacroUsage | DefineDirective | OtherDirective nat

datatype TriviaKind = Whitespace | EndOfLine | LineContinuationTrivia | BlockComment | LineComment

record Trivia =
  triviaKind :: TriviaKind
  triviaText :: string

record SourceLocation =
  bufferID :: nat
  offset :: int

record Token =
  kind :: TokenKind
  trivia :: "Trivia list"
  rawText :: string
  location :: SourceLocation
  directiveKind :: SyntaxKind

text \<open>A default-constructed \<open>Token()\<close> converts to \<open>false\<close>; variables that may hold one
  have type \<open>Token option\<close>, with \<open>None\<close> for the null token.\<close>

definition grave :: char where "grave = CHR 0x60"
definition backslash :: char where "backslash = CHR 0x5C"
definition dquote :: char where "dquote = CHR 0x22"

definition mkToken :: "TokenKind \<Rightarrow> Trivia list \<Rightarrow> string \<Rightarrow> SourceLocation \<Rightarrow> Token" where
  "mkToken k tr raw loc =
     \<lparr>kind = k, trivia = tr, rawText = raw, location = loc, directiveKind = UnknownSyntax\<rparr>"

definition withTrivia :: "Token \<Rightarrow> Trivia list \<Rightarrow> Token" where
  "withTrivia t tr = t\<lparr>trivia := tr\<rparr>"

definition withLocation :: "Token \<Rightarrow> SourceLocation \<Rightarrow> Token" where
  "withLocation t loc = t\<lparr>location := loc\<rparr>"

definition withRawText :: "Token \<Rightarrow> string \<Rightarrow> Token" where
  "withRawText t raw = t\<lparr>rawText := raw\<rparr>"

text \<open>\<open>valueText\<close> of an identifier is its raw text without the backslash of an escaped
  identifier; of a directive and of the other kinds used here it is the raw text.\<close>

definition valueText :: "Token \<Rightarrow> string" where
  "valueText t =
     (if kind t = Identifier \<and> rawText t \<noteq> [] \<and> hd (rawText t) = backslash
      then tl (rawText t) else rawText t)"

text \<open>\<open>isOnSameLine\<close>: no end-of-line or line-continuation trivia precedes the token.\<close>

definition isOnSameLine :: "Token \<Rightarrow> bool" where
  "isOnSameLine t =
     (\<forall>x \<in> set (trivia t). triviaKind x \<noteq> EndOfLine \<and> triviaKind x \<noteq> LineContinuationTrivia)"

definition isKeyword :: "TokenKind \<Rightarrow> bool" where
  "isKeyword k = (case k of Keyword _ \<Rightarrow> True | _ \<Rightarrow> False)"

definition getDelimCloseKind :: "TokenKind \<Rightarrow> TokenKind" where
  "getDelimCloseKind k =
     (case k of OpenParenthesis \<Rightarrow> CloseParenthesis | OpenBracket \<Rightarrow> CloseBracket
      | OpenBrace \<Rightarrow> CloseBrace | _ \<Rightarrow> Unknown)"

text \<open>Locations: adding a character count, and the distance of two locations.\<close>

definition locPlus :: "SourceLocation \<Rightarrow> int \<Rightarrow> SourceLocation" where
  "locPlus l n = l\<lparr>offset := offset l + n\<rparr>"

definition locDiff :: "SourceLocation \<Rightarrow> SourceLocation \<Rightarrow> int" where
  "locDiff a b = offset a - offset b"

definition NoLocation :: SourceLocation where
  "NoLocation = \<lparr>bufferID = 0, offset = 0\<rparr>"

text \<open>\<open>string_view::substr(pos)\<close> throws when \<open>pos\<close> exceeds the length;
  \<open>string_view::find\<close> returns the first offset of a substring, or \<open>npos\<close>.\<close>

definition substr :: "string \<Rightarrow> nat \<Rightarrow> fault + string" where
  "substr s pos = (if length s < pos then Inl Thrown else Inr (drop pos s))"

fun find_from :: "string \<Rightarrow> string \<Rightarrow> nat \<Rightarrow> nat option" where
  "find_from [] pat n = (if pat = [] then Some n else None)"
| "find_from (c # cs) pat n =
     (if take (length pat) (c # cs) = pat then Some n else find_from cs pat (Suc n))"

definition find_str :: "string \<Rightarrow> string \<Rightarrow> nat option" where
  "find_str s pat = find_from s pat 0"

datatype DiagCode =
    UnknownDirective | ExpectedMacroArgs | ExpectedMacroStringifyEnd | IgnoredMacroPaste
  | MisplacedDirectiveChar | NotEnoughMacroArgs | TooManyActualMacroArgs | RecursiveMacro
  | UnbalancedMacroArgDims | ExpectedToken | LexerDiag nat

record Diagnostic =
  code :: DiagCode
  diagLocation :: SourceLocation
  diagArgs :: "string list"

definition mkDiag :: "DiagCode \<Rightarrow> SourceLocation \<Rightarrow> Diagnostic" where
  "mkDiag c l = \<lparr>code = c, diagLocation = l, diagArgs = []\<rparr>"

text \<open>A diagnostic issued by the lexer: it has one of the lexer's own codes.\<close>

definition lexerDiag :: "nat \<times> SourceLocation \<Rightarrow> Diagnostic" where
  "lexerDiag d = mkDiag (LexerDiag (fst d)) (snd d)"

definition mkDiagArg :: "DiagCode \<Rightarrow> SourceLocation \<Rightarrow> string \<Rightarrow> Diagnostic" where
  "mkDiagArg c l a = \<lparr>code = c, diagLocation = l, diagArgs = [a]\<rparr>"

section \<open>Macro definitions and the preprocessor state\<close>

record FormalArg =
  formalName :: Token
  defaultValue :: "Token list option"

text \<open>A \<open>DefineDirectiveSyntax\<close> node. The engine compares nodes by address
  (\<open>alreadyExpanded\<close> is a set of pointers), so the node carries its address.\<close>

record DefineDirectiveSyntax =
  addr :: nat
  name :: Token
  formalArguments :: "FormalArg list option"
  body :: "Token list"

datatype MacroIntrinsic = NoIntrinsic | File | Line

text \<open>Modelled from the spec: \<open>MacroDef\<close> is declared in the header. It holds an optional
  syntax node, the built-in flag and the intrinsic kind; it is valid when it has a syntax
  node or a non-\<open>None\<close> intrinsic; \<open>nullptr\<close> converts to the definition without either.\<close>

text \<open>(The field \<open>syntax\<close> of the source is called \<open>syntaxNode\<close> here.)\<close>

record MacroDef =
  syntaxNode :: "DefineDirectiveSyntax option"
  builtIn :: bool
  intrinsic :: MacroIntrinsic

definition nullMacro :: MacroDef where
  "nullMacro = \<lparr>syntaxNode = None, builtIn = False, intrinsic = NoIntrinsic\<rparr>"

definition valid :: "MacroDef \<Rightarrow> bool" where
  "valid m = (syntaxNode m \<noteq> None \<or> intrinsic m \<noteq> NoIntrinsic)"

definition isIntrinsic :: "MacroDef \<Rightarrow> bool" where
  "isIntrinsic m = (intrinsic m \<noteq> NoIntrinsic)"

definition needsArgs :: "MacroDef \<Rightarrow> bool" where
  "needsArgs m = (case syntaxNode m of None \<Rightarrow> False | Some d \<Rightarrow> formalArguments d \<noteq> None)"

text \<open>The address held by \<open>macro.syntax\<close>; \<open>None\<close> is the null pointer.\<close>

definition syntaxPtr :: "MacroDef \<Rightarrow> nat option" where
  "syntaxPtr m = map_option addr (syntaxNode m)"

text \<open>The part of the preprocessor the macro engine reads and writes: the macro table, the
  diagnostics issued so far, the source manager (its next free buffer and its file names and
  line numbers), the tokens not yet pulled
  from the lexer, the expanded tokens and the position in them from which the next tokens
  are pulled (\<open>currentMacroToken\<close>, \<open>None\<close> for the null pointer).\<close>

record Preprocessor =
  macros :: "string \<rightharpoonup> MacroDef"
  diagnostics :: "Diagnostic list"
  nextBuffer :: nat
  getFileName :: "SourceLocation \<Rightarrow> string"
  getLineNumber :: "SourceLocation \<Rightarrow> nat"
  lexerTokens :: "Token list"
  expandedTokens :: "Token list"
  currentMacroToken :: "nat option"

definition addDiag :: "Diagnostic \<Rightarrow> Preprocessor \<Rightarrow> Preprocessor" where
  "addDiag d pp = pp\<lparr>diagnostics := diagnostics pp @ [d]\<rparr>"

subsection \<open>findMacro\<close>

definition findMacro :: "Preprocessor \<Rightarrow> Token \<Rightarrow> fault + MacroDef" where
  "findMacro pp directive =
     (case substr (valueText directive) 1 of
        Inl e \<Rightarrow> Inl e
      | Inr name0 \<Rightarrow>
          (case (if name0 \<noteq> [] \<and> name0 ! 0 = backslash then substr name0 1 else Inr name0) of
             Inl e \<Rightarrow> Inl e
           | Inr nm \<Rightarrow>
               (case macros pp nm of None \<Rightarrow> Inr nullMacro | Some d \<Rightarrow> Inr d)))"

text \<open>What a lookup of a name in the macro table yields: the entry, or the invalid
  definition when there is none.\<close>

definition lookupMacro :: "Preprocessor \<Rightarrow> string \<Rightarrow> MacroDef" where
  "lookupMacro pp nm = (case macros pp nm of None \<Rightarrow> nullMacro | Some d \<Rightarrow> d)"

section \<open>Preprocessor_macros.cpp: applyMacroOps\<close>

text \<open>The lexer's helpers \<open>Lexer::concatenateTokens\<close>, \<open>Lexer::stringify\<close>,
  \<open>Lexer::commentify\<close> and \<open>Lexer::splitTokens\<close> are external to the macro engine; the engine
  is modelled over an arbitrary lexer. \<open>concatenateTokens\<close> returns the null token when the
  concatenation fails, and \<open>splitTokens\<close> returns the tokens it lexed and the diagnostics
  it issued (each a lexer code and a location).\<close>

record Lexer =
  Lexer_concatenateTokens :: "Token \<Rightarrow> Token \<Rightarrow> Token option"
  Lexer_stringify :: "SourceLocation \<Rightarrow> Trivia list \<Rightarrow> Token list \<Rightarrow> Token"
  Lexer_commentify :: "Token list \<Rightarrow> Trivia"
  Lexer_splitTokens :: "Token \<Rightarrow> nat \<Rightarrow> Token list \<times> (nat \<times> SourceLocation) list"

text \<open>The local variables of \<open>applyMacroOps\<close>, the loop counter \<open>i\<close> (here \<open>index\<close>), the
  destination buffer and the diagnostics of the preprocessor.\<close>

record ops_state =
  index :: nat
  dest :: "Token list"
  emptyArgTrivia :: "Trivia list"
  stringifyBuffer :: "Token list"
  commentBuffer :: "Token list"
  stringify :: "Token option"
  syntheticComment :: "Token option"
  anyNewMacros :: bool
  didConcat :: bool
  diags :: "Diagnostic list"

definition ops_init :: "Token list \<Rightarrow> Diagnostic list \<Rightarrow> ops_state" where
  "ops_init d ds =
     \<lparr>index = 0, dest = d, emptyArgTrivia = [], stringifyBuffer = [], commentBuffer = [],
      stringify = None, syntheticComment = None, anyNewMacros = False, didConcat = False,
      diags = ds\<rparr>"

definition isNewMacroUsage :: "Token \<Rightarrow> bool" where
  "isNewMacroUsage t = (kind t = Directive \<and> directiveKind t = MacroUsage)"

text \<open>The \<open>MacroQuote\<close> case of the switch. The result is \<open>newToken\<close>, \<open>nextDidConcat\<close> and
  the updated variables.\<close>

definition ops_quote :: "Lexer \<Rightarrow> Token \<Rightarrow> ops_state \<Rightarrow> Token option \<times> bool \<times> ops_state" where
  "ops_quote lx token st =
     (case stringify st of
        None \<Rightarrow> (None, False, st\<lparr>stringify := Some token, stringifyBuffer := []\<rparr>)
      | Some q \<Rightarrow>
          (Some (Lexer_stringify lx (location q) (trivia q) (stringifyBuffer st)), False,
           st\<lparr>stringify := None\<rparr>))"

text \<open>The condition under which a \<open>MacroPaste\<close> token is ignored.\<close>

definition pasteIgnored :: "Token list \<Rightarrow> ops_state \<Rightarrow> bool" where
  "pasteIgnored tokens st =
     (let i = index st in
      i = 0 \<or> i = length tokens - 1 \<or> trivia (tokens ! i) \<noteq> [] \<or>
      trivia (tokens ! (i + 1)) \<noteq> [] \<or> emptyArgTrivia st \<noteq> [])"

text \<open>The \<open>MacroPaste\<close> case. \<open>back()\<close> on an empty buffer is undefined behaviour in the
  source and a fault here.\<close>

definition ops_paste ::
  "Lexer \<Rightarrow> Token list \<Rightarrow> ops_state \<Rightarrow> fault + (Token option \<times> bool \<times> ops_state)" where
  "ops_paste lx tokens st =
     (let i = index st; token = tokens ! i in
      if pasteIgnored tokens st then
        Inr (None, False,
             st\<lparr>diags := diags st @ [mkDiag IgnoredMacroPaste (location token)],
                emptyArgTrivia := emptyArgTrivia st @ trivia token\<rparr>)
      else if stringify st \<noteq> None then
        (if stringifyBuffer st = [] \<or> kind (tokens ! (i + 1)) = MacroQuote then
           Inr (None, False, st\<lparr>diags := diags st @ [mkDiag IgnoredMacroPaste (location token)]\<rparr>)
         else
           (case Lexer_concatenateTokens lx (last (stringifyBuffer st)) (tokens ! (i + 1)) of
              None \<Rightarrow> Inr (None, False, st)
            | Some newToken \<Rightarrow>
                Inr (Some newToken, False,
                     st\<lparr>stringifyBuffer := butlast (stringifyBuffer st), index := i + 1\<rparr>)))
      else if syntheticComment st \<noteq> None then
        (if commentBuffer st = [] then Inl OutOfRange
         else if kind (last (commentBuffer st)) = Star \<and> kind (tokens ! (i + 1)) = Slash then
           (let cb = commentBuffer st @ [tokens ! (i + 1)] in
            Inr (None, False,
                 st\<lparr>commentBuffer := cb, index := i + 1,
                    emptyArgTrivia := emptyArgTrivia st @ trivia (the (syntheticComment st))
                                        @ [Lexer_commentify lx cb],
                    syntheticComment := None\<rparr>))
         else Inr (None, False, st))
      else
        (if dest st = [] then Inl OutOfRange
         else
           let left = last (dest st); right = tokens ! (i + 1) in
           if kind left = Slash \<and> kind right = Star then
             Inr (Some right, False,
                  st\<lparr>syntheticComment := Some left, dest := butlast (dest st), index := i + 1,
                     commentBuffer := [withTrivia left []]\<rparr>)
           else
             (case Lexer_concatenateTokens lx (last (dest st)) (tokens ! (i + 1)) of
                None \<Rightarrow> Inr (None, False, st)
              | Some newToken \<Rightarrow>
                  Inr (Some newToken, True,
                       st\<lparr>dest := butlast (dest st), index := i + 1,
                          anyNewMacros := (anyNewMacros st \<or> isNewMacroUsage newToken)\<rparr>))))"

text \<open>The \<open>default\<close> case: a token right after a concatenation, without trivia, continues
  the concatenation; any other token is taken as it is.\<close>

definition ops_default ::
  "Lexer \<Rightarrow> Token \<Rightarrow> ops_state \<Rightarrow> fault + (Token option \<times> bool \<times> ops_state)" where
  "ops_default lx token st =
     (if didConcat st \<and> trivia token = [] \<and> emptyArgTrivia st = [] then
        (if dest st = [] then Inl OutOfRange
         else case Lexer_concatenateTokens lx (last (dest st)) token of
                Some newToken \<Rightarrow> Inr (Some newToken, True, st\<lparr>dest := butlast (dest st)\<rparr>)
              | None \<Rightarrow> Inr (Some token, False, st))
      else Inr (Some token, False, st))"

definition ops_switch ::
  "Lexer \<Rightarrow> Token list \<Rightarrow> ops_state \<Rightarrow> fault + (Token option \<times> bool \<times> ops_state)" where
  "ops_switch lx tokens st =
     (let token = tokens ! index st in
      if kind token = MacroQuote then Inr (ops_quote lx token st)
      else if kind token = MacroPaste then ops_paste lx tokens st
      else ops_default lx token st)"

text \<open>The rest of the loop body, for a non-null \<open>newToken\<close>: an empty macro argument only
  leaves its trivia; pending trivia goes to the token; the token is appended to the
  destination, to the comment buffer or to the stringify buffer. An escaped identifier
  containing \<open>`"\<close> inside a stringification ends the stringification; the tokens lexed
  from the remainder are returned for the recursive call.\<close>

definition ops_emit :: "Lexer \<Rightarrow> Token \<Rightarrow> ops_state \<Rightarrow> ops_state \<times> Token list option" where
  "ops_emit lx newToken0 st0 =
     (if kind newToken0 = EmptyMacroArgument then
        (st0\<lparr>emptyArgTrivia := emptyArgTrivia st0 @ trivia newToken0\<rparr>, None)
      else
        let newToken = (if emptyArgTrivia st0 \<noteq> []
                        then withTrivia newToken0 (emptyArgTrivia st0 @ trivia newToken0)
                        else newToken0);
            st = st0\<lparr>emptyArgTrivia := []\<rparr>
        in case stringify st of
             None \<Rightarrow>
               (if syntheticComment st \<noteq> None
                then (st\<lparr>commentBuffer := commentBuffer st @ [newToken]\<rparr>, None)
                else (st\<lparr>dest := dest st @ [newToken]\<rparr>, None))
           | Some q \<Rightarrow>
               (case (if kind newToken = Identifier \<and> rawText newToken \<noteq> [] \<and>
                         rawText newToken ! 0 = backslash
                      then find_str (rawText newToken) [grave, dquote] else None) of
                  Some off \<Rightarrow>
                    let split = mkToken Identifier (trivia newToken) (take off (rawText newToken))
                                  (location newToken);
                        sb = stringifyBuffer st @ [split];
                        (splits, ds) = Lexer_splitTokens lx newToken (off + 2)
                    in (st\<lparr>stringifyBuffer := sb,
                            dest := dest st @ [Lexer_stringify lx (location q) (trivia q) sb],
                            stringify := None,
                            diags := diags st @ map lexerDiag ds\<rparr>, Some splits)
                | None \<Rightarrow> (st\<lparr>stringifyBuffer := stringifyBuffer st @ [newToken]\<rparr>, None)))"

text \<open>One iteration of the \<open>for\<close> loop, without its \<open>i++\<close>.\<close>

definition ops_step ::
  "Lexer \<Rightarrow> Token list \<Rightarrow> ops_state \<Rightarrow> fault + (ops_state \<times> Token list option)" where
  "ops_step lx tokens st =
     (case ops_switch lx tokens st of
        Inl e \<Rightarrow> Inl e
      | Inr (newToken, nextDidConcat, st1) \<Rightarrow>
          (let st2 = st1\<lparr>didConcat := nextDidConcat\<rparr> in
           case newToken of
             None \<Rightarrow> Inr (st2, None)
           | Some t \<Rightarrow> Inr (ops_emit lx t st2)))"

text \<open>After the loop: an open stringification is reported.\<close>

definition ops_finish :: "ops_state \<Rightarrow> ops_state" where
  "ops_finish st =
     (case stringify st of
        None \<Rightarrow> st
      | Some q \<Rightarrow> st\<lparr>diags := diags st @ [mkDiag ExpectedMacroStringifyEnd (location q)]\<rparr>)"

lemma ops_emit_index: "ops_emit lx t st = (st', r) \<Longrightarrow> index st' = index st"
  by (auto simp: ops_emit_def Let_def split: if_splits option.splits prod.splits)

lemma ops_switch_index:
  "ops_switch lx tokens st = Inr (nt, c, st') \<Longrightarrow> index st \<le> index st'"
  by (auto simp: ops_switch_def ops_quote_def ops_paste_def ops_default_def Let_def
      split: if_splits option.splits)

lemma ops_step_index: "ops_step lx tokens st = Inr (st', r) \<Longrightarrow> index st \<le> index st'"
  by (auto simp: ops_step_def Let_def split: sum.splits option.splits prod.splits
      dest!: ops_switch_index ops_emit_index)

text \<open>The loop of \<open>applyMacroOps\<close>. The recursive call on the tokens lexed from the rest of a
  split identifier has no bound in the engine itself (it rests on the lexer returning less
  text than it was given), so the depth of that recursion is bounded by \<open>fuel\<close>.\<close>

function applyMacroOps_loop ::
  "Lexer \<Rightarrow> nat \<Rightarrow> Token list \<Rightarrow> ops_state \<Rightarrow> fault + ops_state" where
  "applyMacroOps_loop lx fuel tokens st =
     (if index st < length tokens then
        (case ops_step lx tokens st of
           Inl e \<Rightarrow> Inl e
         | Inr (st', None) \<Rightarrow> applyMacroOps_loop lx fuel tokens (st'\<lparr>index := index st' + 1\<rparr>)
         | Inr (st', Some splits) \<Rightarrow>
             (case fuel of
                0 \<Rightarrow> Inl OutOfFuel
              | Suc f \<Rightarrow>
                  (case applyMacroOps_loop lx f splits (ops_init (dest st') (diags st')) of
                     Inl e \<Rightarrow> Inl e
                   | Inr sub \<Rightarrow>
                       applyMacroOps_loop lx fuel tokens
                         (st'\<lparr>dest := dest (ops_finish sub), diags := diags (ops_finish sub),
                             anyNewMacros := (anyNewMacros st' \<or> anyNewMacros (ops_finish sub)),
                             index := index st' + 1\<rparr>))))
      else Inr st)"
  by pat_completeness auto
termination
  by (relation "measures [\<lambda>(lx, fuel, tokens, st). fuel,
                          \<lambda>(lx, fuel, tokens, st). length tokens - index st]")
     (auto dest!: ops_step_index)

declare applyMacroOps_loop.simps [simp del]

text \<open>\<open>applyMacroOps(tokens, dest)\<close>: the result is the returned flag, the destination
  buffer and the diagnostics.\<close>

definition applyMacroOps ::
  "Lexer \<Rightarrow> nat \<Rightarrow> Token list \<Rightarrow> Token list \<Rightarrow> Diagnostic list
     \<Rightarrow> fault + (bool \<times> Token list \<times> Diagnostic list)" where
  "applyMacroOps lx fuel tokens d ds =
     (case applyMacroOps_loop lx fuel tokens (ops_init d ds) of
        Inl e \<Rightarrow> Inl e
      | Inr st \<Rightarrow> Inr (anyNewMacros (ops_finish st), dest (ops_finish st), diags (ops_finish st)))"

text \<open>One iteration of the loop with its \<open>i++\<close> and the recursive call, and the state after
  \<open>n\<close> iterations (after fewer when the buffer ends before): the loop above is the
  repetition of this iteration, as the lemmas \<open>loop_iteration\<close> and \<open>loop_after\<close> show.\<close>

definition ops_iteration :: "Lexer \<Rightarrow> nat \<Rightarrow> Token list \<Rightarrow> ops_state \<Rightarrow> fault + ops_state" where
  "ops_iteration lx fuel tokens st =
     (case ops_step lx tokens st of
        Inl e \<Rightarrow> Inl e
      | Inr (st', None) \<Rightarrow> Inr (st'\<lparr>index := index st' + 1\<rparr>)
      | Inr (st', Some splits) \<Rightarrow>
          (case fuel of
             0 \<Rightarrow> Inl OutOfFuel
           | Suc f \<Rightarrow>
               (case applyMacroOps_loop lx f splits (ops_init (dest st') (diags st')) of
                  Inl e \<Rightarrow> Inl e
                | Inr sub \<Rightarrow>
                    Inr (st'\<lparr>dest := dest (ops_finish sub), diags := diags (ops_finish sub),
                            anyNewMacros := (anyNewMacros st' \<or> anyNewMacros (ops_finish sub)),
                            index := index st' + 1\<rparr>))))"

primrec ops_after :: "Lexer \<Rightarrow> nat \<Rightarrow> Token list \<Rightarrow> nat \<Rightarrow> ops_state \<Rightarrow> fault + ops_state" where
  "ops_after lx fuel tokens 0 st = Inr st"
| "ops_after lx fuel tokens (Suc n) st =
     (case ops_after lx fuel tokens n st of
        Inl e \<Rightarrow> Inl e
      | Inr st' \<Rightarrow>
          if index st' < length tokens then ops_iteration lx fuel tokens st' else Inr st')"

section \<open>A reference lexer\<close>

text \<open>Modelled from the spec: the lexer is an external collaborator of the macro engine and
  is not among the sources at hand. For evaluating the engine on concrete inputs, a small
  lexer is fixed here. \<open>concatenateTokens(left, right)\<close> yields a token whose raw text is the
  two raw texts joined, with the trivia and location of the left token, when the joined
  text lexes cleanly as a single token, and the null token otherwise. Of the single tokens
  only these are recognised: the paste operator \<open>``\<close>, the quote operator \<open>`"\<close>, a backtick
  followed by an identifier (a directive: of the kind of the reserved directive when the
  name is one of the reserved names, a macro usage otherwise), and a plain identifier.
  \<open>stringify\<close> yields a string literal of the raw texts, \<open>commentify\<close> a block comment of
  them, and \<open>splitTokens\<close> lexes the rest of the text as a single token when it can.\<close>

definition isIdentStart :: "char \<Rightarrow> bool" where
  "isIdentStart c =
     (let n = (of_char c :: nat) in (65 \<le> n \<and> n \<le> 90) \<or> (97 \<le> n \<and> n \<le> 122) \<or> n = 95)"

definition isIdentChar :: "char \<Rightarrow> bool" where
  "isIdentChar c =
     (let n = (of_char c :: nat) in isIdentStart c \<or> (48 \<le> n \<and> n \<le> 57) \<or> n = 36)"

definition isIdentifierText :: "string \<Rightarrow> bool" where
  "isIdentifierText s = (case s of [] \<Rightarrow> False | c # cs \<Rightarrow> isIdentStart c \<and> list_all isIdentChar cs)"

definition reservedDirectives :: "string list" where
  "reservedDirectives =
     [''undef'', ''ifdef'', ''ifndef'', ''else'', ''elsif'', ''endif'', ''include'', ''line'',
      ''begin_keywords'', ''end_keywords'', ''pragma'']"

fun indexOf :: "'a list \<Rightarrow> 'a \<Rightarrow> nat \<Rightarrow> nat option" where
  "indexOf [] x n = None"
| "indexOf (y # ys) x n = (if x = y then Some n else indexOf ys x (Suc n))"

definition directiveKindOf :: "string \<Rightarrow> SyntaxKind" where
  "directiveKindOf nm =
     (if nm = ''define'' then DefineDirective
      else case indexOf reservedDirectives nm 0 of
             Some n \<Rightarrow> OtherDirective n
           | None \<Rightarrow> MacroUsage)"

definition lexSingle :: "string \<Rightarrow> (TokenKind \<times> SyntaxKind) option" where
  "lexSingle txt =
     (if txt = [grave, grave] then Some (MacroPaste, UnknownSyntax)
      else if txt = [grave, dquote] then Some (MacroQuote, UnknownSyntax)
      else if txt \<noteq> [] \<and> hd txt = grave \<and> isIdentifierText (tl txt)
        then Some (Directive, directiveKindOf (tl txt))
      else if isIdentifierText txt then Some (Identifier, UnknownSyntax)
      else None)"

definition refConcatenate :: "Token \<Rightarrow> Token \<Rightarrow> Token option" where
  "refConcatenate left right =
     (if rawText left = [] \<or> rawText right = [] then None
      else case lexSingle (rawText left @ rawText right) of
             None \<Rightarrow> None
           | Some (k, dk) \<Rightarrow>
               Some \<lparr>kind = k, trivia = trivia left, rawText = rawText left @ rawText right,
                     location = location left, directiveKind = dk\<rparr>)"

definition tokenText :: "Token \<Rightarrow> string" where
  "tokenText t = concat (map triviaText (trivia t)) @ rawText t"

definition refStringify :: "SourceLocation \<Rightarrow> Trivia list \<Rightarrow> Token list \<Rightarrow> Token" where
  "refStringify loc tr ts =
     mkToken StringLiteral tr ([dquote] @ concat (map tokenText ts) @ [dquote]) loc"

definition refCommentify :: "Token list \<Rightarrow> Trivia" where
  "refCommentify ts = \<lparr>triviaKind = BlockComment, triviaText = concat (map tokenText ts)\<rparr>"

definition refSplitTokens :: "Token \<Rightarrow> nat \<Rightarrow> Token list \<times> (nat \<times> SourceLocation) list" where
  "refSplitTokens t off =
     (case lexSingle (drop off (rawText t)) of
        None \<Rightarrow> ([], [])
      | Some (k, dk) \<Rightarrow>
          ([\<lparr>kind = k, trivia = [], rawText = drop off (rawText t),
             location = locPlus (location t) (int off), directiveKind = dk\<rparr>], []))"

definition refLexer :: Lexer where
  "refLexer =
     \<lparr>Lexer_concatenateTokens = refConcatenate, Lexer_stringify = refStringify,
      Lexer_commentify = refCommentify, Lexer_splitTokens = refSplitTokens\<rparr>"

section \<open>Preprocessor_macros.cpp: MacroParser\<close>

text \<open>Modelled from the spec: \<open>Preprocessor::peek\<close>, \<open>consume\<close> and \<open>expect\<close> are defined outside
  the sources at hand. They pull raw tokens from the lexer; here the tokens still to come
  are a list, after which every pull yields an end-of-file token. \<open>expect\<close> consumes the next
  token when it has the wanted kind and otherwise reports it and yields a missing token of
  that kind, as \<open>Token::createExpected\<close> does.\<close>

definition eofToken :: Token where
  "eofToken = mkToken EndOfFile [] [] NoLocation"

definition pp_peek :: "Preprocessor \<Rightarrow> Token" where
  "pp_peek pp = (case lexerTokens pp of [] \<Rightarrow> eofToken | t # ts \<Rightarrow> t)"

definition pp_consume :: "Preprocessor \<Rightarrow> Token \<times> Preprocessor" where
  "pp_consume pp =
     (case lexerTokens pp of [] \<Rightarrow> (eofToken, pp) | t # ts \<Rightarrow> (t, pp\<lparr>lexerTokens := ts\<rparr>))"

definition createExpected :: "TokenKind \<Rightarrow> Token \<Rightarrow> Preprocessor \<Rightarrow> Token \<times> Preprocessor" where
  "createExpected k actual pp =
     (mkToken k [] [] (location actual), addDiag (mkDiag ExpectedToken (location actual)) pp)"

definition pp_expect :: "TokenKind \<Rightarrow> Preprocessor \<Rightarrow> Token \<times> Preprocessor" where
  "pp_expect k pp = (if kind (pp_peek pp) = k then pp_consume pp else createExpected k (pp_peek pp) pp)"

definition getTokenKindText :: "TokenKind \<Rightarrow> string" where
  "getTokenKindText k =
     (case k of CloseParenthesis \<Rightarrow> '')'' | CloseBracket \<Rightarrow> '']'' | CloseBrace \<Rightarrow> ''}''
      | _ \<Rightarrow> [])"

text \<open>The parser reads from its buffer first and from the preprocessor after it.\<close>

record MacroParser =
  buffer :: "Token list"
  currentIndex :: nat

definition setBuffer :: "Token list \<Rightarrow> MacroParser" where
  "setBuffer newBuffer = \<lparr>buffer = newBuffer, currentIndex = 0\<rparr>"

definition parser_next :: "MacroParser \<Rightarrow> Token option \<times> MacroParser" where
  "parser_next p =
     (if currentIndex p < length (buffer p)
      then (Some (buffer p ! currentIndex p), p\<lparr>currentIndex := currentIndex p + 1\<rparr>)
      else (None, p))"

definition parser_peek :: "MacroParser \<Rightarrow> Preprocessor \<Rightarrow> Token" where
  "parser_peek p pp =
     (if currentIndex p < length (buffer p) then buffer p ! currentIndex p else pp_peek pp)"

definition parser_consume ::
  "MacroParser \<Rightarrow> Preprocessor \<Rightarrow> Token \<times> MacroParser \<times> Preprocessor" where
  "parser_consume p pp =
     (case parser_next p of
        (Some t, p') \<Rightarrow> (t, p', pp)
      | (None, p') \<Rightarrow> (fst (pp_consume pp), p', snd (pp_consume pp)))"

definition parser_expect ::
  "TokenKind \<Rightarrow> MacroParser \<Rightarrow> Preprocessor \<Rightarrow> Token \<times> MacroParser \<times> Preprocessor" where
  "parser_expect k p pp =
     (if length (buffer p) \<le> currentIndex p then
        (fst (pp_expect k pp), p, snd (pp_expect k pp))
      else if kind (buffer p ! currentIndex p) \<noteq> k then
        (fst (createExpected k (buffer p ! currentIndex p) pp), p,
         snd (createExpected k (buffer p ! currentIndex p) pp))
      else (buffer p ! currentIndex p, p\<lparr>currentIndex := currentIndex p + 1\<rparr>, pp))"

text \<open>The number of tokens the parser can still read.\<close>

definition remaining :: "MacroParser \<Rightarrow> Preprocessor \<Rightarrow> nat" where
  "remaining p pp = (length (buffer p) - currentIndex p) + length (lexerTokens pp)"

lemma parser_consume_remaining:
  assumes "kind (parser_peek p pp) \<noteq> EndOfFile" "parser_consume p pp = (t, p', pp')"
  shows "remaining p' pp' < remaining p pp"
proof (cases "currentIndex p < length (buffer p)")
  case True
  then show ?thesis using assms(2) by (auto simp: parser_consume_def parser_next_def remaining_def)
next
  case False
  then have "lexerTokens pp \<noteq> []"
    using assms(1)
    by (auto simp: parser_peek_def pp_peek_def eofToken_def mkToken_def split: list.splits)
  then show ?thesis using assms(2) False
    by (auto simp: parser_consume_def parser_next_def remaining_def pp_consume_def
        split: list.splits)
qed

text \<open>\<open>parseTokenList\<close>: tokens up to a comma or closing parenthesis outside every pair of
  delimiters, or up to the end of the input.\<close>

function parseTokenList_loop ::
  "bool \<Rightarrow> Token list \<Rightarrow> TokenKind list \<Rightarrow> MacroParser \<Rightarrow> Preprocessor
     \<Rightarrow> fault + (Token list \<times> MacroParser \<times> Preprocessor)" where
  "parseTokenList_loop allowNewlines tokens delimPairStack p pp =
     (let k = kind (parser_peek p pp) in
      if k = EndOfFile \<or> (\<not> allowNewlines \<and> \<not> isOnSameLine (parser_peek p pp)) then
        (if delimPairStack \<noteq> [] then
           (if tokens = [] then Inl OutOfRange
            else Inr (tokens, p,
                      addDiag (mkDiagArg UnbalancedMacroArgDims (location (last tokens))
                                 (getTokenKindText (last delimPairStack))) pp))
         else Inr (tokens, p, pp))
      else if delimPairStack = [] \<and> (k = Comma \<or> k = CloseParenthesis) then Inr (tokens, p, pp)
      else
        let stack1 = (if delimPairStack \<noteq> [] \<and> last delimPairStack = k
                      then butlast delimPairStack else delimPairStack);
            closeKind = getDelimCloseKind k;
            stack2 = (if closeKind \<noteq> Unknown then stack1 @ [closeKind] else stack1)
        in case parser_consume p pp of
             (t, p', pp') \<Rightarrow> parseTokenList_loop allowNewlines (tokens @ [t]) stack2 p' pp')"
  by pat_completeness auto
termination
  by (relation "measure (\<lambda>(a, ts, st, p, pp). remaining p pp)")
     (auto intro: parser_consume_remaining[OF _ sym])

declare parseTokenList_loop.simps [simp del]

definition parseTokenList ::
  "bool \<Rightarrow> MacroParser \<Rightarrow> Preprocessor \<Rightarrow> fault + (Token list \<times> MacroParser \<times> Preprocessor)" where
  "parseTokenList allowNewlines p pp = parseTokenList_loop allowNewlines [] [] p pp"

lemma addDiag_lexerTokens [simp]: "lexerTokens (addDiag d pp) = lexerTokens pp"
  by (simp add: addDiag_def)

lemma parseTokenList_loop_remaining:
  "parseTokenList_loop a ts st p pp = Inr (ts', p', pp') \<Longrightarrow> remaining p' pp' \<le> remaining p pp"
proof (induction a ts st p pp rule: parseTokenList_loop.induct)
  case (1 allowNewlines tokens delimPairStack p pp)
  show ?case
  proof (cases "kind (parser_peek p pp) = EndOfFile \<or>
                (\<not> allowNewlines \<and> \<not> isOnSameLine (parser_peek p pp))")
    case True
    then show ?thesis using "1.prems"
      by (subst (asm) parseTokenList_loop.simps) (auto simp: remaining_def split: if_splits)
  next
    case False
    note stop = this
    show ?thesis
    proof (cases "delimPairStack = [] \<and>
        (kind (parser_peek p pp) = Comma \<or> kind (parser_peek p pp) = CloseParenthesis)")
      case True
      then show ?thesis using "1.prems" stop
        by (subst (asm) parseTokenList_loop.simps) (auto simp: Let_def)
    next
      case False
      obtain t p1 pp1 where c: "parser_consume p pp = (t, p1, pp1)"
        by (cases "parser_consume p pp") auto
      have lt: "remaining p1 pp1 < remaining p pp"
        using parser_consume_remaining[OF _ c] stop by simp
      have "remaining p' pp' \<le> remaining p1 pp1"
        using "1.IH"[OF refl _ _ refl refl refl c[symmetric] refl] "1.prems" stop False c
        by (subst (asm) parseTokenList_loop.simps) (auto simp: Let_def)
      then show ?thesis using lt by simp
    qed
  qed
qed

lemma parser_consume_comma:
  "kind (parser_peek p pp) = Comma \<Longrightarrow> (t, p', pp') = parser_consume p pp \<Longrightarrow>
   remaining p pp \<le> n \<Longrightarrow> remaining p' pp' < n"
  using parser_consume_remaining[of p pp t p' pp'] by simp

text \<open>\<open>parseArgumentList\<close> with \<open>parseActualArgument\<close> as the item parser: the arguments
  between the separating commas.\<close>

function parseArgumentList_loop ::
  "Token list list \<Rightarrow> MacroParser \<Rightarrow> Preprocessor
     \<Rightarrow> fault + (Token list list \<times> MacroParser \<times> Preprocessor)" where
  "parseArgumentList_loop results p pp =
     (case parseTokenList True p pp of
        Inl e \<Rightarrow> Inl e
      | Inr (arg, p1, pp1) \<Rightarrow>
          if kind (parser_peek p1 pp1) = Comma then
            (case parser_consume p1 pp1 of
               (c, p2, pp2) \<Rightarrow> parseArgumentList_loop (results @ [arg]) p2 pp2)
          else Inr (results @ [arg], p1, pp1))"
  by pat_completeness auto
termination
  by (relation "measure (\<lambda>(rs, p, pp). remaining p pp)")
     (auto simp: parseTokenList_def dest!: parseTokenList_loop_remaining
        intro: parser_consume_comma)

declare parseArgumentList_loop.simps [simp del]

record ActualArgs =
  openParen :: Token
  args :: "Token list list"
  closeParen :: Token

text \<open>\<open>parseActualArgumentList\<close>; \<open>None\<close> is the null pointer it returns when no opening
  parenthesis follows.\<close>

definition parseActualArgumentList ::
  "Token \<Rightarrow> MacroParser \<Rightarrow> Preprocessor
     \<Rightarrow> fault + (ActualArgs option \<times> MacroParser \<times> Preprocessor)" where
  "parseActualArgumentList prevToken p pp =
     (if kind (parser_peek p pp) \<noteq> OpenParenthesis then
        Inr (None, p,
             addDiag (mkDiag ExpectedMacroArgs
                        (locPlus (location prevToken) (int (length (rawText prevToken))))) pp)
      else
        case parser_consume p pp of
          (open_tok, p1, pp1) \<Rightarrow>
            (case parseArgumentList_loop [] p1 pp1 of
               Inl e \<Rightarrow> Inl e
             | Inr (arguments, p2, pp2) \<Rightarrow>
                 (case parser_expect CloseParenthesis p2 pp2 of
                    (close_tok, p3, pp3) \<Rightarrow>
                      Inr (Some \<lparr>openParen = open_tok, args = arguments, closeParen = close_tok\<rparr>,
                           p3, pp3))))"

section \<open>Preprocessor_macros.cpp: macro expansion\<close>

text \<open>Modelled from the spec: the source manager is external. \<open>createExpansionLoc\<close> returns
  the start of a freshly minted expansion buffer; the record it keeps of the spelling and
  the usage range is not modelled.\<close>

definition createExpansionLoc :: "Preprocessor \<Rightarrow> SourceLocation \<times> Preprocessor" where
  "createExpansionLoc pp =
     (\<lparr>bufferID = nextBuffer pp, offset = 0\<rparr>, pp\<lparr>nextBuffer := nextBuffer pp + 1\<rparr>)"

text \<open>A \<open>MacroExpansion\<close>: the destination buffer \<open>dest\<close> (here \<open>expDest\<close>), the usage site,
  whether the expansion is the top-level one, and whether a token has been appended.\<close>

record MacroExpansion =
  expDest :: "Token list"
  usageSite :: Token
  isTopLevel :: bool
  any :: bool

definition newExpansion :: "Token \<Rightarrow> bool \<Rightarrow> MacroExpansion" where
  "newExpansion site topLevel =
     \<lparr>expDest = [], usageSite = site, isTopLevel = topLevel, any = False\<rparr>"

definition getRangeStart :: "MacroExpansion \<Rightarrow> SourceLocation" where
  "getRangeStart e = location (usageSite e)"

text \<open>\<open>adjustLoc\<close>: the location of the token in the expansion, and the updated references
  \<open>macroLoc\<close> and \<open>firstLoc\<close>.\<close>

definition adjustLoc ::
  "Token \<Rightarrow> SourceLocation \<Rightarrow> SourceLocation \<Rightarrow> Preprocessor
     \<Rightarrow> SourceLocation \<times> SourceLocation \<times> SourceLocation \<times> Preprocessor" where
  "adjustLoc token macroLoc firstLoc pp =
     (if bufferID (location token) \<noteq> bufferID firstLoc then
        (case createExpansionLoc pp of
           (ml, pp') \<Rightarrow>
             (locPlus ml (locDiff (location token) (location token)), ml, location token, pp'))
      else (locPlus macroLoc (locDiff (location token) firstLoc), macroLoc, firstLoc, pp))"

text \<open>\<open>append(token, location, allowLineContinuation)\<close>.\<close>

definition appendAt :: "Token \<Rightarrow> SourceLocation \<Rightarrow> bool \<Rightarrow> MacroExpansion \<Rightarrow> fault + MacroExpansion" where
  "appendAt token0 loc allowLineContinuation e =
     (let token = (if \<not> any e
                   then (if \<not> isTopLevel e then withTrivia token0 (trivia (usageSite e))
                         else withTrivia token0 [])
                   else token0);
          e1 = e\<lparr>any := True\<rparr>
      in if kind token = LineContinuation \<and> \<not> allowLineContinuation then
           (case substr (rawText token) 1 of
              Inl err \<Rightarrow> Inl err
            | Inr rest \<Rightarrow>
                Inr (e1\<lparr>expDest := expDest e1 @
                       [mkToken EmptyMacroArgument
                          (trivia token @ [\<lparr>triviaKind = EndOfLine, triviaText = rest\<rparr>]) [] loc]\<rparr>))
         else Inr (e1\<lparr>expDest := expDest e1 @ [withLocation token loc]\<rparr>))"

text \<open>\<open>append(token, macroLoc, firstLoc, expansionRange, allowLineContinuation)\<close>.\<close>

definition appendTok ::
  "Token \<Rightarrow> SourceLocation \<Rightarrow> SourceLocation \<Rightarrow> bool \<Rightarrow> MacroExpansion \<Rightarrow> Preprocessor
     \<Rightarrow> fault + (SourceLocation \<times> SourceLocation \<times> MacroExpansion \<times> Preprocessor)" where
  "appendTok token macroLoc firstLoc allowLineContinuation e pp =
     (case adjustLoc token macroLoc firstLoc pp of
        (loc, ml, fl, pp') \<Rightarrow>
          (case appendAt token loc allowLineContinuation e of
             Inl err \<Rightarrow> Inl err
           | Inr e' \<Rightarrow> Inr (ml, fl, e', pp')))"

text \<open>\<open>uintToStr\<close>: the decimal digits of a number.\<close>

fun uintToStr :: "nat \<Rightarrow> string" where
  "uintToStr n =
     (if n < 10 then [char_of (48 + n)] else uintToStr (n div 10) @ [char_of (48 + n mod 10)])"

declare uintToStr.simps [simp del]

definition expandIntrinsic ::
  "MacroIntrinsic \<Rightarrow> MacroExpansion \<Rightarrow> Preprocessor \<Rightarrow> fault + (bool \<times> MacroExpansion)" where
  "expandIntrinsic intr e pp =
     (let loc = getRangeStart e in
      case intr of
        File \<Rightarrow>
          (case appendAt (mkToken StringLiteral [] ([dquote] @ getFileName pp loc @ [dquote]) loc)
                  loc False e of
             Inl err \<Rightarrow> Inl err | Inr e' \<Rightarrow> Inr (True, e'))
      | Line \<Rightarrow>
          (case appendAt (mkToken IntegerLiteral [] (uintToStr (getLineNumber pp loc)) loc)
                  loc False e of
             Inl err \<Rightarrow> Inl err | Inr e' \<Rightarrow> Inr (True, e'))
      | NoIntrinsic \<Rightarrow> Inl AssertFailed)"

text \<open>The variables that the closures \<open>append\<close> and \<open>handleToken\<close> of \<open>expandMacro\<close> capture
  by reference; \<open>prep\<close> is the preprocessor.\<close>

record expand_state =
  inDefineDirective :: bool
  argumentMap :: "string \<rightharpoonup> (Token list \<times> bool)"
  expansion :: MacroExpansion
  expansionLoc :: SourceLocation
  start :: SourceLocation
  prep :: Preprocessor

text \<open>A run of \<open>expansion.append(token, loc, first, range)\<close> over a list of tokens, with the
  two location references threaded through.\<close>

fun appendArgList ::
  "Token list \<Rightarrow> SourceLocation \<Rightarrow> SourceLocation \<Rightarrow> MacroExpansion \<Rightarrow> Preprocessor
     \<Rightarrow> fault + (SourceLocation \<times> SourceLocation \<times> MacroExpansion \<times> Preprocessor)" where
  "appendArgList [] argLoc firstLoc e pp = Inr (argLoc, firstLoc, e, pp)"
| "appendArgList (t # ts) argLoc firstLoc e pp =
     (case appendTok t argLoc firstLoc False e pp of
        Inl err \<Rightarrow> Inl err
      | Inr (al, fl, e', pp') \<Rightarrow> appendArgList ts al fl e' pp')"

text \<open>The same with the closure \<open>appendBody\<close>: inside a define directive a token on a new
  line is preceded by a line continuation and loses its trivia.\<close>

fun appendBodyList ::
  "Token list \<Rightarrow> SourceLocation \<Rightarrow> SourceLocation \<Rightarrow> MacroExpansion \<Rightarrow> Preprocessor
     \<Rightarrow> fault + (SourceLocation \<times> SourceLocation \<times> MacroExpansion \<times> Preprocessor)" where
  "appendBodyList [] argLoc firstLoc e pp = Inr (argLoc, firstLoc, e, pp)"
| "appendBodyList (t # ts) argLoc firstLoc e pp =
     (if \<not> isOnSameLine t then
        (case appendTok (mkToken LineContinuation (trivia t) [backslash] (location t))
                argLoc firstLoc True e pp of
           Inl err \<Rightarrow> Inl err
         | Inr (al, fl, e1, pp1) \<Rightarrow>
             (case appendTok (withTrivia t []) al fl False e1 pp1 of
                Inl err \<Rightarrow> Inl err
              | Inr (al2, fl2, e2, pp2) \<Rightarrow> appendBodyList ts al2 fl2 e2 pp2))
      else
        (case appendTok t argLoc firstLoc False e pp of
           Inl err \<Rightarrow> Inl err
         | Inr (al, fl, e', pp') \<Rightarrow> appendBodyList ts al fl e' pp'))"

text \<open>The closure \<open>append\<close> of \<open>expandMacro\<close>; it always yields true.\<close>

definition es_append :: "Token \<Rightarrow> expand_state \<Rightarrow> fault + (bool \<times> expand_state)" where
  "es_append token es =
     (case appendTok token (expansionLoc es) (start es) False (expansion es) (prep es) of
        Inl err \<Rightarrow> Inl err
      | Inr (ml, fl, e', pp') \<Rightarrow>
          Inr (True, es\<lparr>expansionLoc := ml, start := fl, expansion := e', prep := pp'\<rparr>))"

text \<open>The end of \<open>handleToken\<close>, from the pre-expanded argument tokens on: an empty argument
  leaves an \<open>EmptyMacroArgument\<close> token; otherwise the argument tokens are appended, the
  first with the trivia of the formal parameter's occurrence and, for a directive, glued
  to a backtick (\<open>glueDirective\<close>; when that fails the token stays as it is and
  \<open>MisplacedDirectiveChar\<close> is reported).\<close>

definition glueDirective :: "Lexer \<Rightarrow> Token \<Rightarrow> Token \<Rightarrow> Preprocessor \<Rightarrow> Token \<times> Preprocessor" where
  "glueDirective lx token first0 pp =
     (if kind token = Directive then
        (case Lexer_concatenateTokens lx
                (mkToken Unknown (trivia first0) [grave] (location first0)) first0 of
           Some combined \<Rightarrow> (combined, pp)
         | None \<Rightarrow> (first0, addDiag (mkDiag MisplacedDirectiveChar (location first0)) pp))
      else (first0, pp))"

definition substituteArg ::
  "Lexer \<Rightarrow> Token \<Rightarrow> Token list \<Rightarrow> expand_state \<Rightarrow> fault + (bool \<times> expand_state)" where
  "substituteArg lx token argTokens es =
     (case argTokens of
        [] \<Rightarrow> es_append (mkToken EmptyMacroArgument (trivia token) [] (location token)) es
      | a # rest \<Rightarrow>
          (case adjustLoc token (expansionLoc es) (start es) (prep es) of
             (tokenLoc, ml, fl, pp1) \<Rightarrow>
               (case createExpansionLoc pp1 of
                  (argLoc, pp2) \<Rightarrow>
                    (case glueDirective lx token (withTrivia a (trivia token)) pp2 of
                       (first, pp3) \<Rightarrow>
                         (case (if inDefineDirective es
                                then appendBodyList (first # rest) argLoc
                                       (location (withTrivia a (trivia token))) (expansion es) pp3
                                else appendArgList (first # rest) argLoc
                                       (location (withTrivia a (trivia token))) (expansion es) pp3) of
                            Inl err \<Rightarrow> Inl err
                          | Inr (al, fl2, e', pp4) \<Rightarrow>
                              Inr (True, es\<lparr>expansionLoc := ml, start := fl, expansion := e',
                                            prep := pp4\<rparr>))))))"

text \<open>Matching the actual arguments with the formal parameters; \<open>None\<close> when an argument
  without default is missing. \<open>emplace\<close> keeps the first entry of a name.\<close>

fun buildArgumentMap ::
  "FormalArg list \<Rightarrow> Token list list \<Rightarrow> nat \<Rightarrow> (string \<rightharpoonup> (Token list \<times> bool))
     \<Rightarrow> (string \<rightharpoonup> (Token list \<times> bool)) option" where
  "buildArgumentMap [] actualList i m = Some m"
| "buildArgumentMap (formal # fs) actualList i m =
     (case (if i < length actualList
            then Some (if actualList ! i = [] \<and> defaultValue formal \<noteq> None
                       then the (defaultValue formal) else actualList ! i)
            else defaultValue formal) of
        None \<Rightarrow> None
      | Some tokenList \<Rightarrow>
          buildArgumentMap fs actualList (i + 1)
            (if valueText (formalName formal) \<noteq> [] \<and> m (valueText (formalName formal)) = None
             then m(valueText (formalName formal) \<mapsto> (tokenList, False)) else m))"

text \<open>The state of the loop of \<open>expandReplacementList\<close>; \<open>erl_pp\<close> is the preprocessor.\<close>

record erl_state =
  outBuffer :: "Token list"
  expandedSomething :: bool
  parser :: MacroParser
  alreadyExpanded :: "nat option set"
  erl_pp :: Preprocessor

definition erl_init :: "Token list \<Rightarrow> nat option set \<Rightarrow> Preprocessor \<Rightarrow> erl_state" where
  "erl_init tokens ae pp =
     \<lparr>outBuffer = [], expandedSomething = False, parser = setBuffer tokens,
      alreadyExpanded = ae, erl_pp = pp\<rparr>"

text \<open>The span \<open>tokens\<close> after the call: the heap copy of the output buffer when something
  was expanded, the input otherwise.\<close>

definition erl_tokens :: "erl_state \<Rightarrow> Token list" where
  "erl_tokens r = (if expandedSomething r then outBuffer r else buffer (parser r))"

text \<open>The name under which \<open>handleToken\<close> looks a body token up among the formal
  parameters: the value text, without the backtick for a directive.\<close>

definition formalText :: "Token \<Rightarrow> fault + string" where
  "formalText token =
     (if kind token = Directive \<and> valueText token \<noteq> [] then substr (valueText token) 1
      else Inr (valueText token))"

definition splitIndex :: "Token \<Rightarrow> nat option" where
  "splitIndex token =
     (if kind token = Identifier \<and> rawText token \<noteq> [] \<and> rawText token ! 0 = backslash
      then find_str (rawText token) [grave, grave] else None)"

text \<open>The empty argument appended after the pieces of a split escaped identifier.\<close>

definition splitTail :: "Token list \<Rightarrow> Token" where
  "splitTail splits =
     mkToken EmptyMacroArgument [\<lparr>triviaKind = Whitespace, triviaText = '' ''\<rparr>] []
       (locPlus (location (last splits)) (int (length (rawText (last splits)))))"

text \<open>\<open>expandMacro\<close> calls \<open>expandReplacementList\<close> on an argument the first time the
  argument is substituted, and \<open>expandReplacementList\<close> calls \<open>expandMacro\<close>. The closure
  \<open>handleToken\<close> and \<open>expandMacro\<close> are first given with that call as the parameter
  \<open>expandArg\<close> (tokens and preprocessor to flag and final loop state); below the parameter is
  bound to \<open>expandReplacementList\<close> with a fresh \<open>alreadyExpanded\<close> set.\<close>

type_synonym expand_arg = "Token list \<Rightarrow> Preprocessor \<Rightarrow> fault + (bool \<times> erl_state)"

definition handleToken ::
  "Lexer \<Rightarrow> expand_arg \<Rightarrow> Token \<Rightarrow> expand_state \<Rightarrow> fault + (bool \<times> expand_state)" where
  "handleToken lx expandArg token es0 =
     (let es = (if inDefineDirective es0 \<and> \<not> isOnSameLine token
                then es0\<lparr>inDefineDirective := False\<rparr> else es0)
      in
        if kind token \<noteq> Identifier \<and> \<not> isKeyword (kind token) \<and> kind token \<noteq> Directive then
          es_append token es
        else if kind token = Directive \<and> valueText token \<noteq> [] \<and>
                directiveKind token \<noteq> MacroUsage then
          es_append token
            (if directiveKind token = DefineDirective then es\<lparr>inDefineDirective := True\<rparr> else es)
        else
          (case formalText token of
             Inl err \<Rightarrow> Inl err
           | Inr text \<Rightarrow>
               (case argumentMap es text of
                  None \<Rightarrow> es_append token es
                | Some (argTokens, isExpanded) \<Rightarrow>
                    if isExpanded then substituteArg lx token argTokens es
                    else
                      (case expandArg argTokens (prep es) of
                         Inl err \<Rightarrow> Inl err
                       | Inr (ok, r) \<Rightarrow>
                           if \<not> ok then Inr (False, es\<lparr>prep := erl_pp r\<rparr>)
                           else
                             substituteArg lx token (erl_tokens r)
                               (es\<lparr>prep := erl_pp r,
                                   argumentMap := (argumentMap es)(text \<mapsto> (erl_tokens r, True))\<rparr>)))))"

text \<open>The loop \<open>for (auto t : splits)\<close> over the pieces of a split escaped identifier.\<close>

fun handleTokens ::
  "Lexer \<Rightarrow> expand_arg \<Rightarrow> Token list \<Rightarrow> expand_state \<Rightarrow> fault + (bool \<times> expand_state)" where
  "handleTokens lx expandArg [] es = Inr (True, es)"
| "handleTokens lx expandArg (t # ts) es =
     (case handleToken lx expandArg t es of
        Inl err \<Rightarrow> Inl err
      | Inr (ok, es1) \<Rightarrow> if \<not> ok then Inr (False, es1) else handleTokens lx expandArg ts es1)"

text \<open>One iteration of the loop \<open>for (auto token : body)\<close> of a function-like macro: an
  escaped identifier containing \<open>``\<close> is split and its pieces are handled one by one.\<close>

definition expandBodyToken ::
  "Lexer \<Rightarrow> expand_arg \<Rightarrow> Token \<Rightarrow> expand_state \<Rightarrow> fault + (bool \<times> expand_state)" where
  "expandBodyToken lx expandArg token es =
     (case splitIndex token of
        None \<Rightarrow> handleToken lx expandArg token es
      | Some idx \<Rightarrow>
          (case handleToken lx expandArg (withRawText token (take idx (rawText token))) es of
             Inl err \<Rightarrow> Inl err
           | Inr (ok, es1) \<Rightarrow>
               if \<not> ok then Inr (False, es1)
               else
                 (case handleTokens lx expandArg (fst (Lexer_splitTokens lx token idx))
                         (es1\<lparr>prep := (prep es1)\<lparr>diagnostics := diagnostics (prep es1) @
                                   map lexerDiag (snd (Lexer_splitTokens lx token idx))\<rparr>\<rparr>) of
                    Inl err \<Rightarrow> Inl err
                  | Inr (ok2, es2) \<Rightarrow>
                      if \<not> ok2 then Inr (False, es2)
                      else if fst (Lexer_splitTokens lx token idx) = [] then Inr (True, es2)
                      else handleToken lx expandArg
                             (splitTail (fst (Lexer_splitTokens lx token idx))) es2)))"

fun expandBody ::
  "Lexer \<Rightarrow> expand_arg \<Rightarrow> Token list \<Rightarrow> expand_state \<Rightarrow> fault + (bool \<times> expand_state)" where
  "expandBody lx expandArg [] es = Inr (True, es)"
| "expandBody lx expandArg (token # rest) es =
     (case expandBodyToken lx expandArg token es of
        Inl err \<Rightarrow> Inl err
      | Inr (ok, es1) \<Rightarrow> if \<not> ok then Inr (False, es1) else expandBody lx expandArg rest es1)"

definition expandMacro_with ::
  "Lexer \<Rightarrow> expand_arg \<Rightarrow> MacroDef \<Rightarrow> MacroExpansion \<Rightarrow> ActualArgs option \<Rightarrow> Preprocessor
     \<Rightarrow> fault + (bool \<times> MacroExpansion \<times> Preprocessor)" where
  "expandMacro_with lx expandArg macro e actualArgs pp =
     (if isIntrinsic macro then
        (if actualArgs \<noteq> None then Inl AssertFailed
         else case expandIntrinsic (intrinsic macro) e pp of
                Inl err \<Rightarrow> Inl err
              | Inr (ok, e') \<Rightarrow> Inr (ok, e', pp))
      else
        case syntaxNode macro of
          None \<Rightarrow> Inl AssertFailed
        | Some directive \<Rightarrow>
            if body directive = [] then Inr (True, e, pp)
            else
              (case formalArguments directive of
                 None \<Rightarrow>
                   (case appendArgList (body directive) (fst (createExpansionLoc pp))
                           (location (body directive ! 0)) e (snd (createExpansionLoc pp)) of
                      Inl err \<Rightarrow> Inl err
                    | Inr (ml, fl, e', pp') \<Rightarrow> Inr (True, e', pp'))
               | Some formalList \<Rightarrow>
                   (case actualArgs of
                      None \<Rightarrow> Inl AssertFailed
                    | Some actuals \<Rightarrow>
                        if length formalList < length (args actuals) then
                          Inr (False, e,
                               addDiag (mkDiag TooManyActualMacroArgs
                                          (location (openParen actuals))) pp)
                        else
                          (case buildArgumentMap formalList (args actuals) 0 Map.empty of
                             None \<Rightarrow>
                               Inr (False, e,
                                    addDiag (mkDiag NotEnoughMacroArgs
                                               (location (closeParen actuals))) pp)
                           | Some amap \<Rightarrow>
                               (case expandBody lx expandArg (body directive)
                                       \<lparr>inDefineDirective = False, argumentMap = amap,
                                        expansion = e,
                                        expansionLoc = fst (createExpansionLoc pp),
                                        start = location (body directive ! 0),
                                        prep = snd (createExpansionLoc pp)\<rparr> of
                                  Inl err \<Rightarrow> Inl err
                                | Inr (ok, es') \<Rightarrow> Inr (ok, expansion es', prep es'))))))"

text \<open>What the loop of \<open>expandReplacementList\<close> does with a token before any expansion: it
  keeps the token (not a macro usage, or no such macro), fails (the macro is being expanded
  already, or its arguments are missing), or goes on to expand the macro with the parsed
  arguments.\<close>

datatype erl_action =
    Keep erl_state
  | Fail erl_state
  | Expand MacroDef "ActualArgs option" erl_state

definition erl_lookup :: "Token \<Rightarrow> erl_state \<Rightarrow> fault + erl_action" where
  "erl_lookup token st =
     (if kind token \<noteq> Directive \<or> directiveKind token \<noteq> MacroUsage then
        Inr (Keep (st\<lparr>outBuffer := outBuffer st @ [token]\<rparr>))
      else
        case findMacro (erl_pp st) token of
          Inl err \<Rightarrow> Inl err
        | Inr macro \<Rightarrow>
            if \<not> valid macro then Inr (Keep (st\<lparr>outBuffer := outBuffer st @ [token]\<rparr>))
            else if \<not> isIntrinsic macro \<and> syntaxPtr macro \<in> alreadyExpanded st then
              Inr (Fail (st\<lparr>erl_pp := addDiag (mkDiagArg RecursiveMacro (location token)
                                                   (valueText token)) (erl_pp st)\<rparr>))
            else if needsArgs macro then
              (case parseActualArgumentList token (parser st) (erl_pp st) of
                 Inl err \<Rightarrow> Inl err
               | Inr (actualArgs, p2, pp2) \<Rightarrow>
                   if actualArgs = None then Inr (Fail (st\<lparr>parser := p2, erl_pp := pp2\<rparr>))
                   else Inr (Expand macro actualArgs (st\<lparr>parser := p2, erl_pp := pp2\<rparr>)))
            else Inr (Expand macro None st))"

text \<open>The loop of \<open>expandReplacementList\<close>. Nothing in the engine bounds the recursion for
  every input, so the model counts it down with \<open>fuel\<close>, one unit for every iteration of
  the loop. The result is the returned flag and the final state.\<close>

fun erl_loop :: "Lexer \<Rightarrow> nat \<Rightarrow> erl_state \<Rightarrow> fault + (bool \<times> erl_state)" where
  "erl_loop lx 0 st = Inl OutOfFuel"
| "erl_loop lx (Suc fuel) st =
     (case parser_next (parser st) of
        (None, p1) \<Rightarrow> Inr (True, st)
      | (Some token, p1) \<Rightarrow>
          (case erl_lookup token (st\<lparr>parser := p1\<rparr>) of
             Inl err \<Rightarrow> Inl err
           | Inr (Keep st1) \<Rightarrow> erl_loop lx fuel st1
           | Inr (Fail st1) \<Rightarrow> Inr (False, st1)
           | Inr (Expand macro actualArgs st1) \<Rightarrow>
               (case expandMacro_with lx (\<lambda>ts pp. erl_loop lx fuel (erl_init ts {} pp)) macro
                       (newExpansion token False) actualArgs (erl_pp st1) of
                  Inl err \<Rightarrow> Inl err
                | Inr (ok, e', pp3) \<Rightarrow>
                    if \<not> ok then Inr (False, st1\<lparr>erl_pp := pp3\<rparr>)
                    else
                      (case erl_loop lx fuel
                              (erl_init (expDest e')
                                 (insert (syntaxPtr macro) (alreadyExpanded st1)) pp3) of
                         Inl err \<Rightarrow> Inl err
                       | Inr (ok2, sub) \<Rightarrow>
                           if \<not> ok2 then
                             Inr (False, st1\<lparr>alreadyExpanded := alreadyExpanded sub,
                                             erl_pp := erl_pp sub\<rparr>)
                           else
                             erl_loop lx fuel
                               (st1\<lparr>outBuffer := outBuffer st1 @ erl_tokens sub,
                                    expandedSomething := True,
                                    alreadyExpanded := alreadyExpanded sub - {syntaxPtr macro},
                                    erl_pp := erl_pp sub\<rparr>)))))"

declare erl_loop.simps [simp del]

text \<open>\<open>expandReplacementList(tokens, alreadyExpanded)\<close>: the returned flag, the span
  \<open>tokens\<close> after the call, whether it was replaced, the set and the preprocessor.\<close>

definition expandReplacementList ::
  "Lexer \<Rightarrow> nat \<Rightarrow> Token list \<Rightarrow> nat option set \<Rightarrow> Preprocessor
     \<Rightarrow> fault + (bool \<times> Token list \<times> bool \<times> nat option set \<times> Preprocessor)" where
  "expandReplacementList lx fuel tokens ae pp =
     (case erl_loop lx fuel (erl_init tokens ae pp) of
        Inl err \<Rightarrow> Inl err
      | Inr (ok, r) \<Rightarrow>
          if ok then Inr (True, erl_tokens r, expandedSomething r, alreadyExpanded r, erl_pp r)
          else Inr (False, tokens, False, alreadyExpanded r, erl_pp r))"

definition expandMacro ::
  "Lexer \<Rightarrow> nat \<Rightarrow> MacroDef \<Rightarrow> MacroExpansion \<Rightarrow> ActualArgs option \<Rightarrow> Preprocessor
     \<Rightarrow> fault + (bool \<times> MacroExpansion \<times> Preprocessor)" where
  "expandMacro lx fuel = expandMacro_with lx (\<lambda>ts pp. erl_loop lx fuel (erl_init ts {} pp))"

text \<open>The body tokens for which \<open>handleToken\<close> looks for a formal parameter of that name:
  identifiers, keywords and macro usages. \<open>firstTrivia\<close> is the trivia that \<open>append\<close> gives
  a token: its own, or, for the first token of an expansion, that of the usage site (none
  at top level).\<close>

definition substitutable :: "Token \<Rightarrow> bool" where
  "substitutable token =
     ((kind token = Identifier \<or> isKeyword (kind token) \<or> kind token = Directive) \<and>
      \<not> (kind token = Directive \<and> valueText token \<noteq> [] \<and> directiveKind token \<noteq> MacroUsage))"

definition firstTrivia :: "MacroExpansion \<Rightarrow> Token \<Rightarrow> Trivia list" where
  "firstTrivia e token =
     (if any e then trivia token else if isTopLevel e then [] else trivia (usageSite e))"

text \<open>The tokens that the loop of \<open>expandReplacementList\<close> copies to its output: those
  that are not macro usages and the usages of names without a definition.\<close>

definition erlKeeps :: "Preprocessor \<Rightarrow> Token \<Rightarrow> bool" where
  "erlKeeps pp t =
     (kind t \<noteq> Directive \<or> directiveKind t \<noteq> MacroUsage \<or>
      (case findMacro pp t of Inr m \<Rightarrow> \<not> valid m | Inl err \<Rightarrow> False))"

section \<open>Preprocessor_macros.cpp: handleTopLevelMacro\<close>

text \<open>The loop \<open>while (true)\<close> of \<open>handleTopLevelMacro\<close>: nested expansion, then the paste and
  stringify pass into the cleared \<open>expandedTokens\<close>, until neither made progress. The pointer
  comparison \<open>ptr == tokens.data()\<close> holds exactly when \<open>expandReplacementList\<close> left the span
  alone. The loop has no bound, so the model counts its iterations down with \<open>fuel\<close>. Spans
  are modelled by value. The result is whether the loop was left by \<open>break\<close> (true) or by the
  \<open>return\<close> after a failed expansion (false).\<close>

fun handleTopLevel_loop ::
  "Lexer \<Rightarrow> nat \<Rightarrow> Token list \<Rightarrow> nat option set \<Rightarrow> Preprocessor \<Rightarrow> fault + (bool \<times> Preprocessor)" where
  "handleTopLevel_loop lx 0 tokens ae pp = Inl OutOfFuel"
| "handleTopLevel_loop lx (Suc fuel) tokens ae pp =
     (case expandReplacementList lx fuel tokens ae pp of
        Inl err \<Rightarrow> Inl err
      | Inr (ok, tokens1, changed, ae1, pp1) \<Rightarrow>
          if \<not> ok then Inr (False, pp1)
          else
            (case applyMacroOps lx fuel tokens1 [] (diagnostics pp1) of
               Inl err \<Rightarrow> Inl err
             | Inr (anyNew, out, ds) \<Rightarrow>
                 if \<not> anyNew \<and> \<not> changed
                 then Inr (True, pp1\<lparr>expandedTokens := out, diagnostics := ds\<rparr>)
                 else handleTopLevel_loop lx fuel out ae1
                        (pp1\<lparr>expandedTokens := out, diagnostics := ds\<rparr>)))"

declare handleTopLevel_loop.simps [simp del]

text \<open>\<open>handleTopLevelMacro(directive)\<close>: the returned argument list and the preprocessor.\<close>

definition handleTopLevelMacro ::
  "Lexer \<Rightarrow> nat \<Rightarrow> Token \<Rightarrow> Preprocessor \<Rightarrow> fault + (ActualArgs option \<times> Preprocessor)" where
  "handleTopLevelMacro lx fuel directive pp =
     (case findMacro pp directive of
        Inl err \<Rightarrow> Inl err
      | Inr macro \<Rightarrow>
          if \<not> valid macro then
            (if kind (pp_peek pp) = OpenParenthesis then
               (case parseActualArgumentList directive (setBuffer [])
                       (addDiag (mkDiagArg UnknownDirective (location directive)
                                   (valueText directive)) pp) of
                  Inl err \<Rightarrow> Inl err
                | Inr (a, p, pp2) \<Rightarrow> Inr (a, pp2))
             else Inr (None, addDiag (mkDiagArg UnknownDirective (location directive)
                                        (valueText directive)) pp))
          else if currentMacroToken pp \<noteq> None then Inl AssertFailed
          else
            (case (if needsArgs macro then parseActualArgumentList directive (setBuffer []) pp
                   else Inr (None, setBuffer [], pp)) of
               Inl err \<Rightarrow> Inl err
             | Inr (actualArgs, p, pp1) \<Rightarrow>
                 if needsArgs macro \<and> actualArgs = None then Inr (None, pp1)
                 else
                   (case expandMacro lx fuel macro (newExpansion directive True) actualArgs pp1 of
                      Inl err \<Rightarrow> Inl err
                    | Inr (ok, e, pp2) \<Rightarrow>
                        if \<not> ok then Inr (actualArgs, pp2)
                        else
                          (case handleTopLevel_loop lx fuel (expDest e)
                                  (if \<not> isIntrinsic macro then {syntaxPtr macro} else {}) pp2 of
                             Inl err \<Rightarrow> Inl err
                           | Inr (ok2, pp3) \<Rightarrow>
                               if \<not> ok2 then Inr (actualArgs, pp3)
                               else if expandedTokens pp3 \<noteq> []
                               then Inr (actualArgs, pp3\<lparr>currentMacroToken := Some 0\<rparr>)
                               else Inr (actualArgs, pp3)))))"


section \<open>Concrete inputs for evaluation\<close>

text \<open>A macro usage token \<open>`nm\<close>, and a table holding the object-like macro \<open>FOO\<close> with
  body \<open>1\<close>.\<close>

definition usage :: "string \<Rightarrow> Token" where
  "usage nm = (mkToken Directive [] (grave # nm) NoLocation)\<lparr>directiveKind := MacroUsage\<rparr>"

definition fooDef :: MacroDef where
  "fooDef = \<lparr>syntaxNode = Some \<lparr>addr = 1,
       name = mkToken Identifier [] ''FOO'' NoLocation, formalArguments = None,
       body = [mkToken IntegerLiteral [] ''1'' NoLocation]\<rparr>,
     builtIn = False, intrinsic = NoIntrinsic\<rparr>"

definition ppFoo :: Preprocessor where
  "ppFoo = \<lparr>macros = [''FOO'' \<mapsto> fooDef], diagnostics = [], nextBuffer = 1,
     getFileName = (\<lambda>l. ''f.sv''), getLineNumber = (\<lambda>l. 1), lexerTokens = [],
     expandedTokens = [], currentMacroToken = None\<rparr>"

text \<open>An identifier, the operators \<open>``\<close> and \<open>`"\<close> without trivia, and a space.\<close>

definition ident :: "string \<Rightarrow> Token" where
  "ident s = mkToken Identifier [] s NoLocation"

definition pasteTok :: Token where
  "pasteTok = mkToken MacroPaste [] [grave, grave] NoLocation"

definition quoteTok :: Token where
  "quoteTok = mkToken MacroQuote [] [grave, dquote] NoLocation"

definition space :: Trivia where
  "space = \<lparr>triviaKind = Whitespace, triviaText = '' ''\<rparr>"

text \<open>An object-like macro and a function-like macro with the given body, and a
  preprocessor with a macro table and the tokens still to come from the lexer.\<close>

definition objectMacro :: "nat \<Rightarrow> string \<Rightarrow> Token list \<Rightarrow> MacroDef" where
  "objectMacro a nm toks =
     \<lparr>syntaxNode = Some \<lparr>addr = a, name = mkToken Identifier [] nm NoLocation,
                         formalArguments = None, body = toks\<rparr>,
      builtIn = False, intrinsic = NoIntrinsic\<rparr>"

definition functionMacro :: "nat \<Rightarrow> string \<Rightarrow> string list \<Rightarrow> Token list \<Rightarrow> MacroDef" where
  "functionMacro a nm formals toks =
     \<lparr>syntaxNode = Some \<lparr>addr = a, name = mkToken Identifier [] nm NoLocation,
          formalArguments = Some (map (\<lambda>f. \<lparr>formalName = mkToken Identifier [] f NoLocation,
                                            defaultValue = None\<rparr>) formals),
          body = toks\<rparr>,
      builtIn = False, intrinsic = NoIntrinsic\<rparr>"

definition ppWith :: "(string \<rightharpoonup> MacroDef) \<Rightarrow> Token list \<Rightarrow> Preprocessor" where
  "ppWith table toks =
     \<lparr>macros = table, diagnostics = [], nextBuffer = 1,
      getFileName = (\<lambda>l. ''f.sv''), getLineNumber = (\<lambda>l. 1), lexerTokens = toks,
      expandedTokens = [], currentMacroToken = None\<rparr>"

definition plainTok :: "TokenKind \<Rightarrow> string \<Rightarrow> Token" where
  "plainTok k s = mkToken k [] s NoLocation"

text \<open>The state of \<open>expandMacro\<close> for a macro \<open>M(a)\<close> used with an empty argument, after
  one token \<open>b\<close> has been appended; and the argument list \<open>()\<close>.\<close>

definition emptyArgState :: expand_state where
  "emptyArgState =
     \<lparr>inDefineDirective = False, argumentMap = [''a'' \<mapsto> ([], True)],
      expansion = (newExpansion (usage ''M'') True)\<lparr>expDest := [ident ''b''], any := True\<rparr>,
      expansionLoc = \<lparr>bufferID = 1, offset = 0\<rparr>, start = NoLocation,
      prep = ppWith Map.empty []\<rparr>"

definition emptyArgs :: ActualArgs where
  "emptyArgs = \<lparr>openParen = plainTok OpenParenthesis ''('', args = [[]],
                closeParen = plainTok CloseParenthesis '')''\<rparr>"

text \<open>The definitions \<open>`define T `A``A\<close> and \<open>`define AA `A``A\<close>; the body \<open>`A``A\<close> at a
  location of an expansion buffer; and the usages \<open>`AA\<close> without trivia.\<close>

definition tabT :: "string \<rightharpoonup> MacroDef" where
  "tabT = [''T'' \<mapsto> objectMacro 10 ''T'' [usage ''A'', pasteTok, ident ''A''],
           ''AA'' \<mapsto> objectMacro 20 ''AA'' [usage ''A'', pasteTok, ident ''A'']]"

definition bodyAt :: "SourceLocation \<Rightarrow> Token list" where
  "bodyAt l = [withLocation (usage ''A'') l, withLocation pasteTok l, withLocation (ident ''A'') l]"

definition isAA :: "Token \<Rightarrow> bool" where
  "isAA t = (kind t = Directive \<and> directiveKind t = MacroUsage \<and> rawText t = grave # ''AA'' \<and>
             trivia t = [])"


text \<open>The definitions \<open>`define A(x) x\<close> and \<open>`define B `A(`B)\<close>, and the body of \<open>B\<close> at a
  location of an expansion buffer.\<close>

definition bodyOfB :: "Token list" where
  "bodyOfB = [usage ''A'', plainTok OpenParenthesis ''('', usage ''B'',
              plainTok CloseParenthesis '')'']"

definition tabArg :: "string \<rightharpoonup> MacroDef" where
  "tabArg = [''A'' \<mapsto> functionMacro 10 ''A'' [''x''] [ident ''x''],
             ''B'' \<mapsto> objectMacro 20 ''B'' bodyOfB]"

definition bodyB :: "SourceLocation \<Rightarrow> Token list" where
  "bodyB l = [withLocation (usage ''A'') l, withLocation (plainTok OpenParenthesis ''('') l,
              withLocation (usage ''B'') l, withLocation (plainTok CloseParenthesis '')'') l]"





text \<open>The buffer of an empty argument, preceded by a space, and \<open>c\<close>.\<close>

definition emptyArgBuffer :: "Token list" where
  "emptyArgBuffer = [mkToken EmptyMacroArgument [space] [] NoLocation, ident ''c'']"

section \<open>Invariants of the macro engine\<close>

text \<open>A list of diagnostics without \<open>RecursiveMacro\<close>, and the diagnostics that a call has
  added: those of the final preprocessor after the ones that were there at the start.\<close>

definition noRecursive :: "Diagnostic list \<Rightarrow> bool" where
  "noRecursive ds = (\<forall>d \<in> set ds. code d \<noteq> RecursiveMacro)"

definition newDiags :: "Preprocessor \<Rightarrow> Preprocessor \<Rightarrow> Diagnostic list" where
  "newDiags pp pp' = drop (length (diagnostics pp)) (diagnostics pp')"

text \<open>What a member function of \<open>Preprocessor\<close> may do to the preprocessor: the macro table
  and \<open>currentMacroToken\<close> stay as they are, diagnostics are only added at the end, and
  \<open>RecursiveMacro\<close> is not among the added ones when the function returns true; when it
  returns false, only the last added diagnostic can be \<open>RecursiveMacro\<close>.\<close>

definition grows :: "bool \<Rightarrow> Preprocessor \<Rightarrow> Preprocessor \<Rightarrow> bool" where
  "grows ok pp pp' =
     (macros pp' = macros pp \<and> currentMacroToken pp' = currentMacroToken pp \<and>
      take (length (diagnostics pp)) (diagnostics pp') = diagnostics pp \<and>
      noRecursive (if ok then newDiags pp pp' else butlast (newDiags pp pp')))"


text \<open>The diagnostics of \<open>applyMacroOps\<close>, from a state to a later one: the earlier ones
  followed by diagnostics other than \<open>RecursiveMacro\<close>.\<close>

definition opsDiags :: "ops_state \<Rightarrow> ops_state \<Rightarrow> bool" where
  "opsDiags st st' = (\<exists>new. diags st' = diags st @ new \<and> noRecursive new)"

subsection \<open>The origin of the tokens of a pass\<close>










subsection \<open>Stringification and pending trivia\<close>

text \<open>The state \<open>st\<close> of the scan is inside the stringification that the iteration at the
  state \<open>a\<close> opened: the token at \<open>a\<close> is the open quote, the destination and the flag are
  as they were at \<open>a\<close>, and only \<open>IgnoredMacroPaste\<close> diagnostics have been added.\<close>

definition openedAt :: "Token list \<Rightarrow> ops_state \<Rightarrow> ops_state \<Rightarrow> bool" where
  "openedAt tokens a st =
     (index a < length tokens \<and> kind (tokens ! index a) = MacroQuote \<and> stringify a = None \<and>
      stringify st = Some (tokens ! index a) \<and> \<not> didConcat st \<and> dest st = dest a \<and>
      anyNewMacros st = anyNewMacros a \<and>
      (\<exists>ign. diags st = diags a @ ign \<and> (\<forall>x \<in> set ign. code x = IgnoredMacroPaste)))"

text \<open>\<open>newToken.withTrivia(emptyArgTrivia + newToken.trivia())\<close>.\<close>

definition giveTrivia :: "Trivia list \<Rightarrow> Token \<Rightarrow> Token" where
  "giveTrivia p t = withTrivia t (p @ trivia t)"

text \<open>While \<open>emptyArgTrivia\<close> is not empty, the scan passes over the operator \<open>``\<close> (which
  is then ignored), over an empty argument and over an opening \<open>`"\<close> without producing a
  token: the state after a run of such tokens, and \<open>None\<close> when one of the tokens is none of
  these.\<close>

fun pendingRun :: "Token list \<Rightarrow> ops_state \<Rightarrow> ops_state option" where
  "pendingRun [] st = Some st"
| "pendingRun (t # ts) st =
     (if kind t = MacroPaste then
        pendingRun ts (st\<lparr>diags := diags st @ [mkDiag IgnoredMacroPaste (location t)],
                          emptyArgTrivia := emptyArgTrivia st @ trivia t,
                          didConcat := False, index := index st + 1\<rparr>)
      else if kind t = EmptyMacroArgument then
        pendingRun ts (st\<lparr>emptyArgTrivia := emptyArgTrivia st @ trivia t,
                          didConcat := False, index := index st + 1\<rparr>)
      else if kind t = MacroQuote \<and> stringify st = None then
        pendingRun ts (st\<lparr>stringify := Some t, stringifyBuffer := [],
                          didConcat := False, index := index st + 1\<rparr>)
      else None)"

text \<open>The token that the switch produces at any other token \<open>t\<close>, which is an ordinary token
  or a closing \<open>`"\<close>: the token itself or the string literal; the state after the switch;
  and the token that goes into the stringify buffer for a token \<open>t\<close>: the token, or, for
  an escaped identifier containing \<open>`"\<close>, its piece before that.\<close>

definition producedToken :: "Lexer \<Rightarrow> Token \<Rightarrow> ops_state \<Rightarrow> Token" where
  "producedToken lx t st =
     (case stringify st of
        Some q \<Rightarrow> if kind t = MacroQuote
                  then Lexer_stringify lx (location q) (trivia q) (stringifyBuffer st) else t
      | None \<Rightarrow> t)"

definition afterSwitch :: "Token \<Rightarrow> ops_state \<Rightarrow> ops_state" where
  "afterSwitch t st =
     st\<lparr>stringify := (if kind t = MacroQuote then None else stringify st), didConcat := False\<rparr>"

definition stringifyPiece :: "Token \<Rightarrow> Token" where
  "stringifyPiece t =
     (case (if kind t = Identifier \<and> rawText t \<noteq> [] \<and> rawText t ! 0 = backslash
            then find_str (rawText t) [grave, dquote] else None) of
        Some off \<Rightarrow> mkToken Identifier (trivia t) (take off (rawText t)) (location t)
      | None \<Rightarrow> t)"

section \<open>Unfolding rules for evaluation\<close>

lemmas tok_defs = ident_def pasteTok_def quoteTok_def usage_def mkToken_def NoLocation_def
   grave_def dquote_def backslash_def
lemmas ops_defs = applyMacroOps_def ops_init_def ops_step_def ops_switch_def ops_quote_def
   ops_paste_def ops_default_def ops_emit_def ops_finish_def pasteIgnored_def  isNewMacroUsage_def
   withTrivia_def
lemmas reflex_defs = refLexer_def refConcatenate_def lexSingle_def isIdentifierText_def isIdentStart_def isIdentChar_def
   directiveKindOf_def reservedDirectives_def

section \<open>Properties of distribute\<close>

lemma prefixSize_Suc: "prefixSize T N (Suc n) = prefixSize T N n + evenSize T N n"
  by (simp add: prefixSize_def)

lemma prefixSize_eq:
  "n \<le> N \<Longrightarrow> prefixSize T N n = n * (T div N) + min n (T mod N)"
  by (induction n) (auto simp: prefixSize_def evenSize_def)

lemma prefixSize_total: "0 < N \<Longrightarrow> prefixSize T N N = T"
proof -
  assume "0 < N"
  then have "T mod N < N" by simp
  then have "min N (T mod N) = T mod N" by simp
  then show ?thesis by (simp add: prefixSize_eq)
qed

lemma prefixSize_mono: "m \<le> n \<Longrightarrow> prefixSize T N m \<le> prefixSize T N n"
  unfolding prefixSize_def by (rule sum_mono2) auto

lemma distribute_loop_inv:
  fixes numNodes perNode extra position n :: u32
  assumes T: "T < 2 ^ 32" and N: "N = unat numNodes"
    and per: "unat perNode = T div N" and ex: "unat extra = T mod N"
    and P: "P = unat position" and Npos: "0 < N"
  shows "unat n = m \<Longrightarrow> m \<le> N \<Longrightarrow> N \<le> length ns \<Longrightarrow> unat s = prefixSize T N m \<Longrightarrow>
     posInv T N numNodes P m pp \<Longrightarrow>
     \<exists>ns' pp'. distribute_loop numNodes perNode extra position n (ns, pp, s) = Inr (ns', pp', of_nat T)
       \<and> length ns' = length ns
       \<and> (\<forall>k. k < m \<or> N \<le> k \<longrightarrow> ns' ! k = ns ! k)
       \<and> (\<forall>k. m \<le> k \<and> k < N \<longrightarrow> unat (ns' ! k) = evenSize T N k)
       \<and> posInv T N numNodes P N pp'"
proof (induction "N - m" arbitrary: n m ns s pp)
  case 0
  then have "m = N" by simp
  then have "n = numNodes" using 0 N by (simp add: word_unat_eq_iff)
  moreover have "s = of_nat T"
  proof -
    have "unat s = T" using 0 \<open>m = N\<close> prefixSize_total[of N T] Npos by simp
    then have "of_nat (unat s) = (of_nat T :: u32)" by simp
    then show ?thesis by simp
  qed
  ultimately show ?case using 0 \<open>m = N\<close> by (auto simp: distribute_loop.simps)
next
  case (Suc j)
  then have mN: "m < N" by simp
  then have ne: "n \<noteq> numNodes" using Suc N by auto
  have lenok: "\<not> length ns \<le> unat n" using Suc mN by simp
  have szle: "evenSize T N m \<le> prefixSize T N (Suc m)" by (simp add: prefixSize_Suc)
  have preSle: "prefixSize T N (Suc m) \<le> T"
    using prefixSize_mono[where m="Suc m" and n=N and T=T and N=N] prefixSize_total[of N T] mN by simp
  have nlt: "(n < extra) = (m < T mod N)" using Suc ex by (simp add: word_less_nat_alt)
  define sz where "sz = perNode + (if n < extra then 1 else 0)"
  have usz: "unat sz = evenSize T N m"
  proof -
    have "unat perNode + unat (if n < extra then 1 else 0 :: u32) = evenSize T N m"
      using per nlt by (simp add: evenSize_def)
    moreover have "evenSize T N m < 2 ^ 32" using szle preSle T by simp
    ultimately show ?thesis unfolding sz_def
      using unat_add_lem[of perNode "if n < extra then 1 else 0"] by simp
  qed
  define s' where "s' = s + sz"
  have us': "unat s' = prefixSize T N (Suc m)"
  proof -
    have "unat s + unat sz = prefixSize T N (Suc m)" using Suc usz by (simp add: prefixSize_Suc)
    moreover have "prefixSize T N (Suc m) < 2 ^ 32" using preSle T by simp
    ultimately show ?thesis unfolding s'_def
      using unat_add_lem[of s sz] by simp
  qed
  define ns1 where "ns1 = ns[unat n := sz]"
  have ns1n: "ns1 ! unat n = sz" using lenok by (simp add: ns1_def)
  define pp1 where "pp1 = (if fst pp = numNodes \<and> s' > position
                          then (n, position - (s' - ns1 ! unat n)) else pp)"
  have step: "distribute_loop numNodes perNode extra position n (ns, pp, s)
      = distribute_loop numNodes perNode extra position (n + 1) (ns1, pp1, s')"
    using ne lenok by (subst distribute_loop.simps) (simp add: Let_def sz_def s'_def ns1_def pp1_def)
  have un1: "unat (n + 1) = Suc m"
  proof -
    have "unat n + unat (1::u32) < 2 ^ 32" using Suc mN N unsigned_less[of numNodes, where ?'a=nat] by simp
    then show ?thesis using Suc.prems unat_add_lem[of n 1] by simp
  qed
  have inv0: "posInv T N numNodes P m pp" using Suc.prems by simp
  have sgt: "(s' > position) = (P < prefixSize T N (Suc m))"
    using us' P by (simp add: word_less_nat_alt)
  have inv1: "posInv T N numNodes P (Suc m) pp1"
  proof (cases "fst pp = numNodes")
    case True
    then have "\<not> unat (fst pp) < m" using N mN by simp
    then have pp0: "pp = (numNodes, 0)" and ple: "prefixSize T N m \<le> P"
      using inv0 by (auto simp: posInv_def)
    show ?thesis
    proof (cases "s' > position")
      case gt: True
      have "s' - ns1 ! unat n = s" by (simp add: ns1n s'_def)
      moreover have "s \<le> position" using ple P Suc.prems by (simp add: word_le_nat_alt)
      ultimately have "unat (position - (s' - ns1 ! unat n)) = P - prefixSize T N m"
        using P Suc.prems by (simp add: unat_sub)
      moreover have "pp1 = (n, position - (s' - ns1 ! unat n))"
        using True gt by (simp add: pp1_def)
      moreover have "P < prefixSize T N m + evenSize T N m"
        using gt sgt by (simp add: prefixSize_Suc)
      ultimately show ?thesis using ple Suc.prems(1) by (auto simp: posInv_def)
    next
      case False
      then have "pp1 = pp" by (simp add: pp1_def)
      then show ?thesis using False sgt pp0 by (simp add: posInv_def)
    qed
  next
    case False
    then have "pp1 = pp" by (simp add: pp1_def)
    moreover have "pp \<noteq> (numNodes, 0)" using False by auto
    ultimately show ?thesis using inv0 by (auto simp: posInv_def)
  qed
  have "j = N - Suc m" using Suc by simp
  from Suc.hyps(1)[OF this un1 _ _ us' inv1, of ns1] mN Suc.prems
  obtain ns' pp' where r: "distribute_loop numNodes perNode extra position (n + 1) (ns1, pp1, s') = Inr (ns', pp', of_nat T)"
       "length ns' = length ns1"
       "(\<forall>k. k < Suc m \<or> N \<le> k \<longrightarrow> ns' ! k = ns1 ! k)"
       "(\<forall>k. Suc m \<le> k \<and> k < N \<longrightarrow> unat (ns' ! k) = evenSize T N k)"
       "posInv T N numNodes P N pp'"
    by (auto simp: ns1_def)
  have "ns' ! k = ns ! k" if "k < m \<or> N \<le> k" for k
  proof -
    have "k \<noteq> unat n" using that mN Suc.prems by auto
    then have "ns1 ! k = ns ! k" by (simp add: ns1_def)
    moreover have "ns' ! k = ns1 ! k" using r(3) that by auto
    ultimately show ?thesis by simp
  qed
  moreover have "unat (ns' ! k) = evenSize T N k" if "m \<le> k \<and> k < N" for k
  proof (cases "k = m")
    case True
    then have "ns' ! k = ns1 ! unat n" using r(3) Suc.prems by simp
    then show ?thesis using ns1n usz True by simp
  next
    case False
    then show ?thesis using r(4) that by simp
  qed
  ultimately show ?case using step r by (simp add: ns1_def)
qed

lemma posInv_final:
  assumes "posInv T N numNodes P N pp" "0 < N" "N = unat numNodes"
  shows "if P < T then unat (fst pp) < N \<and> prefixSize T N (unat (fst pp)) + unat (snd pp) = P \<and>
            unat (snd pp) < evenSize T N (unat (fst pp))
         else pp = (numNodes, 0)"
proof (cases "P < T")
  case True
  then have "\<not> prefixSize T N N \<le> P" using prefixSize_total[of N T] assms(2) by simp
  then show ?thesis using assms(1) True by (auto simp: posInv_def)
next
  case False
  have "P < T" if "unat (fst pp) < N" "prefixSize T N (unat (fst pp)) + unat (snd pp) = P"
      "unat (snd pp) < evenSize T N (unat (fst pp))"
  proof -
    have "P < prefixSize T N (Suc (unat (fst pp)))" using that by (simp add: prefixSize_Suc)
    moreover have "prefixSize T N (Suc (unat (fst pp))) \<le> prefixSize T N N"
      using that(1) by (intro prefixSize_mono) simp
    ultimately show ?thesis using prefixSize_total[of N T] assms(2) by simp
  qed
  then show ?thesis using assms(1) False unfolding posInv_def by auto
qed

text \<open>Claim C5 (as amended). For \<open>numNodes \<ge> 1\<close>, with the source's assertions
  \<open>numElements + grow \<le> numNodes * capacity\<close> and \<open>position \<le> numElements\<close> holding, with
  \<open>numElements + grow\<close> not wrapping around 32 bits and an array of at least \<open>numNodes\<close>
  entries, \<open>distribute\<close> returns; it locates \<open>position\<close> in the left-leaning even split of
  \<open>numElements + grow\<close> elements (node index and offset in that node, or \<open>(numNodes, 0)\<close> when
  the position is the end and nothing grows); and it writes to node \<open>n\<close> the size
  \<open>\<lfloor>(numElements + grow) / numNodes\<rfloor>\<close> plus one when \<open>n < (numElements + grow) mod numNodes\<close>,
  less one at the returned node when \<open>grow\<close> is set.\<close>

theorem distribute_even_split:
  fixes numNodes numElements capacity position :: u32
  assumes nodes: "numNodes \<noteq> 0"
    and cap: "numElements + (if grow then 1 else 0) \<le> numNodes * capacity"
    and T: "T = unat numElements + (if grow then 1 else 0)" and range: "T < 2 ^ 32"
    and pos: "position \<le> numElements"
    and N: "N = unat numNodes" and len: "N \<le> length newSizes"
  shows "\<exists>sizes idx off.
      distribute numNodes numElements capacity newSizes position grow = Inr (sizes, (idx, off))
    \<and> length sizes = length newSizes
    \<and> (\<forall>k<N. unat (sizes ! k) = evenSize T N k - (if grow \<and> k = unat idx then 1 else 0))
    \<and> (\<forall>k\<ge>N. sizes ! k = newSizes ! k)
    \<and> (if unat position < T
        then unat idx < N \<and> prefixSize T N (unat idx) + unat off = unat position
           \<and> unat off < evenSize T N (unat idx)
        else (idx, off) = (numNodes, 0))"
proof -
  define g :: u32 where "g = (if grow then 1 else 0)"
  have ug: "unat (numElements + g) = T"
    using T range unat_add_lem[of numElements g] by (cases grow) (simp_all add: g_def)
  have Npos: "0 < N" using nodes N by (simp add: unat_gt_0)
  have per: "unat ((numElements + g) div numNodes) = T div N" using ug N by (simp add: unat_div)
  have ex: "unat ((numElements + g) mod numNodes) = T mod N" using ug N by (simp add: unat_mod)
  have inv0: "posInv T N numNodes (unat position) 0 (numNodes, 0)"
    by (simp add: posInv_def prefixSize_def)
  from distribute_loop_inv[OF range N per ex refl Npos, where n=0 and m=0 and ns=newSizes
      and s=0 and pp="(numNodes, 0)" and position=position] len inv0
  obtain ns' pp' where r:
      "distribute_loop numNodes ((numElements + g) div numNodes) ((numElements + g) mod numNodes)
          position 0 (newSizes, (numNodes, 0), 0) = Inr (ns', pp', of_nat T)"
      "length ns' = length newSizes"
      "\<forall>k. N \<le> k \<longrightarrow> ns' ! k = newSizes ! k"
      "\<forall>k. k < N \<longrightarrow> unat (ns' ! k) = evenSize T N k"
      "posInv T N numNodes (unat position) N pp'"
    by (auto simp: prefixSize_def)
  have sumok: "(of_nat T :: u32) = numElements + g" using ug by (metis of_nat_unat ucast_id)
  note fin = posInv_final[OF r(5) Npos N]
  obtain idx off where pp': "pp' = (idx, off)" by (cases pp')
  show ?thesis
  proof (cases grow)
    case False
    then have "distribute numNodes numElements capacity newSizes position grow = Inr (ns', (idx, off))"
      using nodes cap pos r(1) sumok pp' by (simp add: distribute_def g_def)
    then show ?thesis using r(2,3,4) fin pp' False by auto
  next
    case True
    then have "unat position < T" using pos T by (simp add: word_le_nat_alt)
    then have loc: "unat idx < N" "prefixSize T N (unat idx) + unat off = unat position"
        "unat off < evenSize T N (unat idx)"
      using fin pp' by auto
    have lt: "idx < numNodes" using loc(1) N by (simp add: word_less_nat_alt)
    have nz: "ns' ! unat idx \<noteq> 0"
    proof
      assume "ns' ! unat idx = 0"
      then have "unat (ns' ! unat idx) = 0" by simp
      then show False using r(4) loc(1,3) by simp
    qed
    define sizes where "sizes = ns'[unat idx := ns' ! unat idx - 1]"
    have res: "distribute numNodes numElements capacity newSizes position grow = Inr (sizes, (idx, off))"
      using nodes cap pos r(1) sumok pp' True lt nz by (simp add: distribute_def g_def sizes_def)
    have "unat (sizes ! k) = evenSize T N k - (if k = unat idx then 1 else 0)" if "k < N" for k
    proof (cases "k = unat idx")
      case e: True
      then have "sizes ! k = ns' ! unat idx - 1" using that r(2) len by (simp add: sizes_def)
      then show ?thesis using nz r(4) that e by (simp add: unat_minus_one)
    next
      case False
      then show ?thesis using r(4) that by (simp add: sizes_def)
    qed
    moreover have "sizes ! k = newSizes ! k" if "N \<le> k" for k
      using that r(3) loc(1) by (simp add: sizes_def)
    moreover have "length sizes = length newSizes" using r(2) by (simp add: sizes_def)
    ultimately show ?thesis using res loc True \<open>unat position < T\<close> by auto
  qed
qed

text \<open>Claim C5, as stated, at a concrete input: two nodes, three elements and one element to
  grow by. The even split of four elements gives node 0 two elements, but the array written
  by \<open>distribute\<close> holds one element for node 0, because the element to be inserted is
  subtracted from the node that receives it.\<close>

theorem distribute_claim_counterexample:
  "distribute 2 3 4 [0, 0] 0 True = Inr ([1, 2], (0, 0)) \<and>
   unat ([1, 2 :: u32] ! 0) \<noteq> evenSize (3 + 1) 2 0"
proof -
  have "distribute 2 3 4 [0, 0] 0 True = Inr ([1, 2], (0, 0))"
    by (simp add: distribute_def distribute_loop.simps Let_def)
  moreover have "evenSize (3 + 1) 2 0 = 2" by (simp add: evenSize_def)
  ultimately show ?thesis by simp
qed

text \<open>The theorem at three nodes of capacity four holding seven elements, inserting at
  position five.\<close>

theorem distribute_even_split_witness:
  "\<exists>sizes idx off.
      distribute 3 7 4 [0, 0, 0] 5 True = Inr (sizes, (idx, off))
    \<and> length sizes = length [0, 0, 0 :: u32]
    \<and> (\<forall>k<3. unat (sizes ! k) = evenSize 8 3 k - (if True \<and> k = unat idx then 1 else 0))
    \<and> (\<forall>k\<ge>3. sizes ! k = [0, 0, 0] ! k)
    \<and> (if unat (5 :: u32) < 8
        then unat idx < 3 \<and> prefixSize 8 3 (unat idx) + unat off = unat (5 :: u32)
           \<and> unat off < evenSize 8 3 (unat idx)
        else (idx, off) = (3, 0))"
  by (rule distribute_even_split) simp_all

section \<open>Properties of \<open>$countbits\<close>\<close>

lemma countbits_loop_append:
  "countbits_loop iv (xs @ ys) st =
     (case countbits_loop iv xs st of
        Inl e \<Rightarrow> Inl e | Inr None \<Rightarrow> Inr None | Inr (Some st') \<Rightarrow> countbits_loop iv ys st')"
  by (induction xs arbitrary: st) (auto simp: Let_def split: sum.splits)

lemma countbits_loop_seen_mono:
  "countbits_loop iv xs st = Inr (Some st') \<Longrightarrow> seenBit st b \<Longrightarrow> seenBit st' b"
proof (induction xs arbitrary: st)
  case Nil
  then show ?case by simp
next
  case (Cons v xs)
  then show ?case
    by (auto simp: Let_def seenBit_def split: sum.splits if_splits logic_t.splits)
qed

lemma countbits_loop_seen:
  "countbits_loop iv xs st = Inr (Some st') \<Longrightarrow> c \<in> set xs \<Longrightarrow> controlBit c = Some b \<Longrightarrow>
   seenBit st' b"
proof (induction xs arbitrary: st)
  case Nil
  then show ?case by simp
next
  case (Cons v xs)
  show ?case
  proof (cases "c = v")
    case True
    then obtain vi where v: "v = CVInteger vi" and b: "b = bitAt vi 0"
      using Cons.prems(3) by (auto simp: controlBit_def split: ConstantValue.splits)
    from Cons.prems(1) v obtain st1 where
      st1: "countbits_loop iv xs st1 = Inr (Some st')" and "seenBit st1 b"
      by (cases b) (auto simp: Let_def integer_def seenBit_def b split: if_splits)
    then show ?thesis using countbits_loop_seen_mono by blast
  next
    case False
    then have "c \<in> set xs" using Cons.prems(2) by simp
    moreover from Cons.prems(1) obtain st1 where "countbits_loop iv xs st1 = Inr (Some st')"
      by (auto simp: Let_def split: sum.splits if_splits)
    ultimately show ?thesis using Cons.IH Cons.prems(3) by blast
  qed
qed

lemma countbits_loop_seen_step:
  "seenBit st (bitAt a 0) \<Longrightarrow> countbits_loop iv [CVInteger a] st = Inr (Some st)"
  by (cases "bitAt a 0") (auto simp: integer_def seenBit_def Let_def)

lemma count_list_logic_total:
  "count_list xs L0 + count_list xs L1 + count_list xs LX + count_list xs LZ = length xs"
proof (induction xs)
  case Nil
  then show ?case by simp
next
  case (Cons x xs)
  then show ?case by (cases x) simp_all
qed

lemma seenTotal_le: "seenTotal iv st \<le> bitWidth iv"
  using count_list_logic_total[of "bitvals iv"]
  by (simp add: seenTotal_def countOf_def bitWidth_def)

lemma unat_add_le': "unat ((c :: 64 word) + of_nat n) \<le> unat c + n"
proof -
  have "unat (c + of_nat n) \<le> unat c + unat (of_nat n :: 64 word)"
    by (simp add: unat_word_ariths)
  moreover have "unat (of_nat n :: 64 word) \<le> n"
    by (simp add: unat_of_nat)
  ultimately show ?thesis by simp
qed

lemma countbits_loop_bound:
  "countbits_loop iv xs st = Inr (Some st') \<Longrightarrow> unat (count st) \<le> seenTotal iv st \<Longrightarrow>
   unat (count st') \<le> seenTotal iv st'"
proof (induction xs arbitrary: st)
  case Nil
  then show ?case by simp
next
  case (Cons v xs)
  from Cons.prems(1) obtain vi where v: "v = CVInteger vi"
    by (cases v) (auto simp: integer_def)
  define st1 where "st1 =
           (if bitAt vi 0 = L0 then
              (if \<not> seen0 st then st\<lparr>count := count st + of_nat (countZeros iv), seen0 := True\<rparr>
               else st)
            else if bitAt vi 0 = L1 then
              (if \<not> seen1 st then st\<lparr>count := count st + of_nat (countOnes iv), seen1 := True\<rparr>
               else st)
            else if bitAt vi 0 = LX then
              (if \<not> seenX st then st\<lparr>count := count st + of_nat (countXs iv), seenX := True\<rparr>
               else st)
            else if bitAt vi 0 = LZ then
              (if \<not> seenZ st then st\<lparr>count := count st + of_nat (countZs iv), seenZ := True\<rparr>
               else st)
            else st)"
  have run: "countbits_loop iv xs st1 = Inr (Some st')"
    using Cons.prems(1) v by (simp add: integer_def Let_def st1_def)
  have "unat (count st1) \<le> seenTotal iv st1"
    using Cons.prems(2)
      unat_add_le'[of "count st" "countZeros iv"] unat_add_le'[of "count st" "countOnes iv"]
      unat_add_le'[of "count st" "countXs iv"] unat_add_le'[of "count st" "countZs iv"]
    by (auto simp: st1_def seenTotal_def countOf_def countZeros_def countOnes_def countXs_def
        countZs_def)
  then show ?case using Cons.IH run by blast
qed

lemma unsignedValue_snoc:
  "unsignedValue (bs @ [b]) = unsignedValue bs + 2 ^ length bs * (if b = L1 then 1 else 0)"
  by (induction bs) auto

lemma unsignedValue_of_bits:
  "unsignedValue (map (\<lambda>i. if bit (v :: 64 word) i then L1 else L0) [0..<n]) = take_bit n (unat v)"
proof (induction n)
  case 0
  then show ?case by simp
next
  case (Suc n)
  have "take_bit (Suc n) (unat v) = 2 ^ n * of_bool (bit (unat v) n) + take_bit n (unat v)"
    by (rule take_bit_Suc_from_most)
  moreover have "bit (unat v) n = bit v n" by (simp add: bit_unsigned_iff)
  ultimately show ?case using Suc by (simp add: unsignedValue_snoc)
qed

lemma toInt_le_unsigned: "toInt x \<le> int (unsignedValue (bitvals x))"
  by (simp add: toInt_def Let_def)

lemma toInt_of_u64_le: "toInt (SVInt_of_u64 n v s) \<le> int (unat v)"
proof -
  have "unsignedValue (bitvals (SVInt_of_u64 n v s)) \<le> unat v"
    by (simp add: SVInt_of_u64_def unsignedValue_of_bits take_bit_nat_less_eq_self)
  then have "int (unsignedValue (bitvals (SVInt_of_u64 n v s))) \<le> int (unat v)"
    by (simp only: of_nat_le_iff)
  then show ?thesis using toInt_le_unsigned[of "SVInt_of_u64 n v s"] by (rule order_trans[rotated])
qed

text \<open>Claim C10. When \<open>$countbits\<close> evaluates successfully on an integer first argument,
  a further control argument whose least significant bit equals that of an earlier control
  argument leaves the result unchanged, and the result is at most the bit width of the first
  argument: each of the values 0, 1, X and Z adds its count at most once.\<close>

theorem countbits_each_value_once:
  assumes ok: "CountBitsFunction_eval (CVInteger iv # ctrl) = Inr (CVInteger r)"
  shows "(\<forall>a c. c \<in> set ctrl \<and> controlBit c = Some (bitAt a 0) \<longrightarrow>
            CountBitsFunction_eval (CVInteger iv # ctrl @ [CVInteger a]) = Inr (CVInteger r))
       \<and> toInt r \<le> int (bitWidth iv)"
proof -
  define st0 where "st0 = \<lparr>seen0 = False, seen1 = False, seenX = False, seenZ = False, count = 0\<rparr>"
  from ok obtain st where run: "countbits_loop iv ctrl st0 = Inr (Some st)"
      and r: "r = SVInt_of_u64 32 (count st) True"
    by (auto simp: CountBitsFunction_eval_def integer_def st0_def split: sum.splits option.splits)
  have "CountBitsFunction_eval (CVInteger iv # ctrl @ [CVInteger a]) = Inr (CVInteger r)"
    if "c \<in> set ctrl" "controlBit c = Some (bitAt a 0)" for a c
  proof -
    have "seenBit st (bitAt a 0)" using countbits_loop_seen[OF run that] .
    then have "countbits_loop iv (ctrl @ [CVInteger a]) st0 = Inr (Some st)"
      using run countbits_loop_seen_step by (simp add: countbits_loop_append del: countbits_loop.simps)
    then show ?thesis by (simp add: CountBitsFunction_eval_def integer_def st0_def r)
  qed
  moreover have "toInt r \<le> int (bitWidth iv)"
  proof -
    have "unat (count st0) \<le> seenTotal iv st0" by (simp add: st0_def)
    then have "unat (count st) \<le> seenTotal iv st" using countbits_loop_bound[OF run] by simp
    then have "unat (count st) \<le> bitWidth iv" using seenTotal_le[of iv st] by simp
    then have "int (unat (count st)) \<le> int (bitWidth iv)" by (simp only: of_nat_le_iff)
    then show ?thesis using toInt_of_u64_le[of 32 "count st" True] r by simp
  qed
  ultimately show ?thesis by blast
qed

text \<open>The theorem on the value \<open>1X01\<close> with controls 1, X and a repeated 1: two ones and
  one X are counted.\<close>

theorem countbits_each_value_once_witness:
  "CountBitsFunction_eval [CVInteger iv_example, ctl L1, ctl LX, ctl L1] = Inr (CVInteger (SVInt_of_u64 32 3 True))
   \<and> toInt (SVInt_of_u64 32 3 True) \<le> int (bitWidth iv_example)"
proof -
  have ok: "CountBitsFunction_eval (CVInteger iv_example # [ctl L1, ctl LX]) = Inr (CVInteger (SVInt_of_u64 32 3 True))"
    by (simp add: CountBitsFunction_eval_def integer_def iv_example_def ctl_def bitAt_def countOnes_def countXs_def Let_def)
  have "ctl L1 \<in> set [ctl L1, ctl LX] \<and> controlBit (ctl L1) = Some (bitAt \<lparr>signFlag = False, bitvals = [L1]\<rparr> 0)"
    by (simp add: ctl_def controlBit_def)
  then show ?thesis using countbits_each_value_once[OF ok] by (auto simp: ctl_def)
qed

section \<open>Properties of findMacro\<close>

text \<open>Claim C9. For a directive token whose name, the text after the first character (the
  backtick), begins with a backslash, \<open>findMacro\<close> looks up the name without that
  backslash; for every other directive token it looks up the name unchanged. Hence an
  escaped usage resolves to the same entry as the plain usage of the same name.\<close>

theorem findMacro_strips_backslash:
  "(valueText directive = c # backslash # rest \<longrightarrow>
      findMacro pp directive = Inr (lookupMacro pp rest))
 \<and> (valueText directive = c # nm \<and> (nm = [] \<or> hd nm \<noteq> backslash) \<longrightarrow>
      findMacro pp directive = Inr (lookupMacro pp nm))
 \<and> (valueText escaped = c # backslash # nm \<and> valueText plain = c' # nm \<and>
      (nm = [] \<or> hd nm \<noteq> backslash) \<longrightarrow>
      findMacro pp escaped = findMacro pp plain)"
proof -
  have a: "findMacro pp d = Inr (lookupMacro pp rest)" if "valueText d = x # backslash # rest"
    for d x rest
    using that by (simp add: findMacro_def substr_def lookupMacro_def split: option.splits)
  have b: "findMacro pp d = Inr (lookupMacro pp nm)"
    if "valueText d = x # nm" "nm = [] \<or> hd nm \<noteq> backslash" for d x nm
    using that by (cases nm) (auto simp: findMacro_def substr_def lookupMacro_def split: option.splits)
  show ?thesis using a b by metis
qed

text \<open>The theorem on the usages \<open>`\FOO\<close>, \<open>`FOO\<close> and \<open>`\BAR\<close> with only \<open>FOO\<close>
  defined.\<close>

theorem findMacro_strips_backslash_witness:
  "findMacro ppFoo (usage (backslash # ''FOO'')) = Inr fooDef \<and>
   findMacro ppFoo (usage ''FOO'') = Inr fooDef \<and>
   findMacro ppFoo (usage (backslash # ''BAR'')) = Inr nullMacro"
proof -
  have v: "valueText (usage s) = grave # s" for s
    by (simp add: valueText_def usage_def mkToken_def)
  have "findMacro ppFoo (usage (backslash # ''FOO'')) = Inr (lookupMacro ppFoo ''FOO'')"
    using findMacro_strips_backslash[of "usage (backslash # ''FOO'')" grave "''FOO''" ppFoo] v
    by simp
  moreover have "findMacro ppFoo (usage ''FOO'') = Inr (lookupMacro ppFoo ''FOO'')"
    using findMacro_strips_backslash[of "usage ''FOO''" grave _ ppFoo "''FOO''"] v
    by (simp add: backslash_def)
  moreover have "findMacro ppFoo (usage (backslash # ''BAR'')) = Inr (lookupMacro ppFoo ''BAR'')"
    using findMacro_strips_backslash[of "usage (backslash # ''BAR'')" grave "''BAR''" ppFoo] v
    by simp
  ultimately show ?thesis by (simp add: lookupMacro_def ppFoo_def)
qed

section \<open>The loop of applyMacroOps as repeated iterations\<close>

lemma loop_iteration:
  "applyMacroOps_loop lx fuel tokens st =
     (if index st < length tokens
      then (case ops_iteration lx fuel tokens st of
              Inl e \<Rightarrow> Inl e
            | Inr st' \<Rightarrow> applyMacroOps_loop lx fuel tokens st')
      else Inr st)"
  by (subst applyMacroOps_loop.simps)
     (simp add: ops_iteration_def split: sum.splits option.splits nat.splits prod.splits)

lemma ops_iteration_index:
  "ops_iteration lx fuel tokens st = Inr st' \<Longrightarrow> index st < index st'"
  by (auto simp: ops_iteration_def split: sum.splits option.splits nat.splits prod.splits
      dest!: ops_step_index)

lemma ops_after_front:
  "index st < length tokens \<Longrightarrow>
   ops_after lx fuel tokens (Suc n) st =
     (case ops_iteration lx fuel tokens st of
        Inl e \<Rightarrow> Inl e
      | Inr st1 \<Rightarrow> ops_after lx fuel tokens n st1)"
proof (induction n)
  case 0
  then show ?case by (simp split: sum.splits)
next
  case (Suc n)
  have "ops_after lx fuel tokens (Suc (Suc n)) st =
     (case ops_after lx fuel tokens (Suc n) st of
        Inl e \<Rightarrow> Inl e
      | Inr st' \<Rightarrow>
          if index st' < length tokens then ops_iteration lx fuel tokens st' else Inr st')"
    by simp
  also have "\<dots> = (case ops_iteration lx fuel tokens st of
        Inl e \<Rightarrow> Inl e
      | Inr st1 \<Rightarrow> ops_after lx fuel tokens (Suc n) st1)"
    unfolding Suc.IH[OF Suc.prems] by (simp split: sum.splits)
  finally show ?case .
qed

lemma loop_after:
  "applyMacroOps_loop lx fuel tokens st =
     (case ops_after lx fuel tokens n st of
        Inl e \<Rightarrow> Inl e
      | Inr st' \<Rightarrow> applyMacroOps_loop lx fuel tokens st')"
proof (induction n)
  case 0
  show ?case by simp
next
  case (Suc n)
  show ?case
  proof (cases "ops_after lx fuel tokens n st")
    case (Inl e)
    then show ?thesis using Suc by simp
  next
    case (Inr st')
    then show ?thesis using Suc loop_iteration[of lx fuel tokens st']
      by (simp split: sum.splits)
  qed
qed

lemma loop_result_after:
  "applyMacroOps_loop lx fuel tokens st = Inr st' \<Longrightarrow>
   \<exists>n. ops_after lx fuel tokens n st = Inr st' \<and> length tokens \<le> index st'"
proof (induction "length tokens - index st" arbitrary: st rule: less_induct)
  case less
  show ?case
  proof (cases "index st < length tokens")
    case False
    with less.prems have "st' = st" by (subst (asm) loop_iteration) simp
    with False show ?thesis by (intro exI[of _ 0]) simp
  next
    case True
    with less.prems obtain st1 where i: "ops_iteration lx fuel tokens st = Inr st1"
      and l: "applyMacroOps_loop lx fuel tokens st1 = Inr st'"
      by (subst (asm) loop_iteration) (auto split: sum.splits)
    from ops_iteration_index[OF i] True
    have "length tokens - index st1 < length tokens - index st" by simp
    from less.hyps[OF this l] obtain n where
      n: "ops_after lx fuel tokens n st1 = Inr st'" "length tokens \<le> index st'" by blast
    have "ops_after lx fuel tokens (Suc n) st = Inr st'"
      using True i n(1) by (simp only: ops_after_front) simp
    with n show ?thesis by blast
  qed
qed

section \<open>Properties of applyMacroOps\<close>

subsection \<open>A stringification that is not closed\<close>

lemma ops_emit_stringify:
  assumes "ops_emit lx nt st = (st', r)"
  shows "stringify st' = None \<or>
         (r = None \<and> stringify st' = stringify st \<and> didConcat st' = didConcat st \<and>
          dest st' = dest st \<and> anyNewMacros st' = anyNewMacros st \<and> diags st' = diags st)"
  using assms unfolding ops_emit_def Let_def
  by (auto split: if_splits option.splits prod.splits)

lemma ops_switch_open:
  assumes "ops_switch lx tokens st = Inr (nt, c, st1)" "stringify st = Some q" "\<not> didConcat st"
  shows "\<not> c \<and> (stringify st1 = None \<or> stringify st1 = Some q) \<and> dest st1 = dest st \<and>
         anyNewMacros st1 = anyNewMacros st \<and>
         (diags st1 = diags st \<or>
          diags st1 = diags st @ [mkDiag IgnoredMacroPaste (location (tokens ! index st))])"
  using assms unfolding ops_switch_def ops_quote_def ops_paste_def ops_default_def Let_def
  by (auto split: if_splits option.splits)

lemma stringify_step:
  assumes s: "ops_step lx tokens st = Inr (st', r)" and q: "stringify st = Some q"
    and d: "\<not> didConcat st"
  shows "stringify st' = None \<or>
         (r = None \<and> stringify st' = Some q \<and> \<not> didConcat st' \<and> dest st' = dest st \<and>
          anyNewMacros st' = anyNewMacros st \<and>
          (diags st' = diags st \<or>
           diags st' = diags st @ [mkDiag IgnoredMacroPaste (location (tokens ! index st))]))"
proof -
  from s obtain nt c st1 where sw: "ops_switch lx tokens st = Inr (nt, c, st1)"
    by (auto simp: ops_step_def split: sum.splits)
  note a = ops_switch_open[OF sw q d]
  show ?thesis
  proof (cases nt)
    case None
    then have "st' = st1\<lparr>didConcat := c\<rparr>" "r = None" using s sw by (simp_all add: ops_step_def)
    then show ?thesis using a by auto
  next
    case (Some t)
    then have e: "ops_emit lx t (st1\<lparr>didConcat := c\<rparr>) = (st', r)"
      using s sw by (simp add: ops_step_def)
    from ops_emit_stringify[OF e] a show ?thesis by auto
  qed
qed

lemma open_step:
  assumes s: "ops_step lx tokens st = Inr (st', r)" and q: "stringify st = None"
  shows "stringify st' = None \<or>
         (r = None \<and> kind (tokens ! index st) = MacroQuote \<and>
          stringify st' = Some (tokens ! index st) \<and> \<not> didConcat st' \<and> dest st' = dest st \<and>
          anyNewMacros st' = anyNewMacros st \<and> diags st' = diags st)"
proof -
  from s obtain nt c st1 where sw: "ops_switch lx tokens st = Inr (nt, c, st1)"
    by (auto simp: ops_step_def split: sum.splits)
  show ?thesis
  proof (cases "kind (tokens ! index st) = MacroQuote")
    case True
    with sw q have "nt = None" "c = False"
      "st1 = st\<lparr>stringify := Some (tokens ! index st), stringifyBuffer := []\<rparr>"
      by (simp_all add: ops_switch_def ops_quote_def)
    with s sw True show ?thesis by (auto simp: ops_step_def)
  next
    case False
    with sw q have n: "stringify st1 = None"
      unfolding ops_switch_def ops_paste_def ops_default_def Let_def
      by (auto split: if_splits option.splits)
    show ?thesis
    proof (cases nt)
      case None
      then show ?thesis using s sw n by (auto simp: ops_step_def)
    next
      case (Some t)
      then have e: "ops_emit lx t (st1\<lparr>didConcat := c\<rparr>) = (st', r)"
        using s sw by (simp add: ops_step_def)
      from ops_emit_stringify[OF e] n show ?thesis by auto
    qed
  qed
qed

lemma iteration_opens:
  assumes i: "ops_iteration lx fuel tokens st = Inr st'" and lt: "index st < length tokens"
    and n: "stringify st = None"
  shows "stringify st' = None \<or> openedAt tokens st st'"
proof -
  from i obtain st1 r where s: "ops_step lx tokens st = Inr (st1, r)"
    by (auto simp: ops_iteration_def split: sum.splits)
  from open_step[OF s n] show ?thesis
  proof
    assume "stringify st1 = None"
    then have "stringify st' = None" using i s
      by (auto simp: ops_iteration_def split: option.splits nat.splits sum.splits)
    then show ?thesis ..
  next
    assume a: "r = None \<and> kind (tokens ! index st) = MacroQuote \<and>
          stringify st1 = Some (tokens ! index st) \<and> \<not> didConcat st1 \<and> dest st1 = dest st \<and>
          anyNewMacros st1 = anyNewMacros st \<and> diags st1 = diags st"
    then have "st' = st1\<lparr>index := index st1 + 1\<rparr>" using i s by (simp add: ops_iteration_def)
    then have "openedAt tokens st st'" using a lt n by (simp add: openedAt_def)
    then show ?thesis ..
  qed
qed

lemma iteration_stays_open:
  assumes i: "ops_iteration lx fuel tokens st = Inr st'" and o: "openedAt tokens a st"
  shows "stringify st' = None \<or> openedAt tokens a st'"
proof -
  from i obtain st1 r where s: "ops_step lx tokens st = Inr (st1, r)"
    by (auto simp: ops_iteration_def split: sum.splits)
  from o have q: "stringify st = Some (tokens ! index a)" and d: "\<not> didConcat st"
    by (simp_all add: openedAt_def)
  from stringify_step[OF s q d] show ?thesis
  proof
    assume "stringify st1 = None"
    then have "stringify st' = None" using i s
      by (auto simp: ops_iteration_def split: option.splits nat.splits sum.splits)
    then show ?thesis ..
  next
    assume b: "r = None \<and> stringify st1 = Some (tokens ! index a) \<and> \<not> didConcat st1 \<and>
          dest st1 = dest st \<and> anyNewMacros st1 = anyNewMacros st \<and>
          (diags st1 = diags st \<or>
           diags st1 = diags st @ [mkDiag IgnoredMacroPaste (location (tokens ! index st))])"
    then have e: "st' = st1\<lparr>index := index st1 + 1\<rparr>" using i s by (simp add: ops_iteration_def)
    from o obtain ign where ign: "diags st = diags a @ ign" "\<forall>x \<in> set ign. code x = IgnoredMacroPaste"
      by (auto simp: openedAt_def)
    from b have "diags st1 = diags a @ ign \<or>
       diags st1 = diags a @ (ign @ [mkDiag IgnoredMacroPaste (location (tokens ! index st))])"
      using ign(1) by auto
    then have "\<exists>ign'. diags st1 = diags a @ ign' \<and> (\<forall>x \<in> set ign'. code x = IgnoredMacroPaste)"
      using ign(2) by (auto simp: mkDiag_def)
    then have "openedAt tokens a st'" using o b e by (auto simp: openedAt_def)
    then show ?thesis ..
  qed
qed

lemma after_open:
  "ops_after lx fuel tokens n st0 = Inr st \<Longrightarrow> stringify st0 = None \<Longrightarrow>
   stringify st = None \<or>
   (\<exists>m a. m < n \<and> ops_after lx fuel tokens m st0 = Inr a \<and> openedAt tokens a st)"
proof (induction n arbitrary: st)
  case 0
  then show ?case by simp
next
  case (Suc n)
  from Suc.prems(1) obtain sn where sn: "ops_after lx fuel tokens n st0 = Inr sn"
    by (auto split: sum.splits)
  note ih = Suc.IH[OF sn Suc.prems(2)]
  show ?case
  proof (cases "index sn < length tokens")
    case False
    then have "st = sn" using Suc.prems(1) sn by simp
    then show ?thesis using ih less_Suc_eq by auto
  next
    case True
    then have i: "ops_iteration lx fuel tokens sn = Inr st" using Suc.prems(1) sn by simp
    from ih show ?thesis
    proof
      assume "stringify sn = None"
      from iteration_opens[OF i True this] sn show ?thesis by auto
    next
      assume "\<exists>m a. m < n \<and> ops_after lx fuel tokens m st0 = Inr a \<and> openedAt tokens a sn"
      then obtain m a where m: "m < n" "ops_after lx fuel tokens m st0 = Inr a"
        "openedAt tokens a sn" by blast
      from iteration_stays_open[OF i m(3)] m(1,2) less_Suc_eq show ?thesis by auto
    qed
  qed
qed

text \<open>Claim C4 (as amended). Whenever the loop of \<open>applyMacroOps\<close> ends with a
  stringification open, the scan has at some iteration, with no stringification open,
  reached the \<open>`"\<close> that opened it. The pass returns normally. Its output is the
  destination as it was at that iteration: no token stored for the stringification
  reaches it. Its diagnostics are those at that iteration, then \<open>IgnoredMacroPaste\<close>
  diagnostics only, and last one \<open>ExpectedMacroStringifyEnd\<close> at the location of that quote.
  The returned flag is the one at that iteration.\<close>

theorem unterminated_stringify:
  assumes run: "applyMacroOps_loop lx fuel tokens (ops_init d ds) = Inr st_end"
    and active: "stringify st_end \<noteq> None"
  shows "\<exists>n st ign. ops_after lx fuel tokens n (ops_init d ds) = Inr st \<and>
           index st < length tokens \<and> kind (tokens ! index st) = MacroQuote \<and>
           stringify st = None \<and> (\<forall>x \<in> set ign. code x = IgnoredMacroPaste) \<and>
           applyMacroOps lx fuel tokens d ds =
             Inr (anyNewMacros st, dest st,
                  diags st @ ign @
                    [mkDiag ExpectedMacroStringifyEnd (location (tokens ! index st))])"
proof -
  from loop_result_after[OF run] obtain k where
    k: "ops_after lx fuel tokens k (ops_init d ds) = Inr st_end" by blast
  have "stringify (ops_init d ds) = None" by (simp add: ops_init_def)
  from after_open[OF k this] active obtain m a where
    a: "ops_after lx fuel tokens m (ops_init d ds) = Inr a" "openedAt tokens a st_end" by blast
  from a(2) obtain ign where ign: "diags st_end = diags a @ ign"
    "\<forall>x \<in> set ign. code x = IgnoredMacroPaste" by (auto simp: openedAt_def)
  have "applyMacroOps lx fuel tokens d ds =
      Inr (anyNewMacros a, dest a,
           diags a @ ign @ [mkDiag ExpectedMacroStringifyEnd (location (tokens ! index a))])"
    using run a(2) ign(1) by (simp add: applyMacroOps_def ops_finish_def openedAt_def)
  with a ign(2) show ?thesis unfolding openedAt_def by blast
qed

text \<open>The theorem on the buffer \<open>a `" b\<close>: the output is \<open>a\<close>.\<close>

theorem unterminated_stringify_witness:
  "(\<exists>n st ign.
      ops_after refLexer 0 [ident ''a'', quoteTok, ident ''b''] n (ops_init [] []) = Inr st \<and>
      index st < length [ident ''a'', quoteTok, ident ''b''] \<and>
      kind ([ident ''a'', quoteTok, ident ''b''] ! index st) = MacroQuote \<and>
      stringify st = None \<and> (\<forall>x \<in> set ign. code x = IgnoredMacroPaste) \<and>
      applyMacroOps refLexer 0 [ident ''a'', quoteTok, ident ''b''] [] [] =
        Inr (anyNewMacros st, dest st,
             diags st @ ign @
               [mkDiag ExpectedMacroStringifyEnd
                  (location ([ident ''a'', quoteTok, ident ''b''] ! index st))])) \<and>
   applyMacroOps refLexer 0 [ident ''a'', quoteTok, ident ''b''] [] [] =
     Inr (False, [ident ''a''], [mkDiag ExpectedMacroStringifyEnd (location quoteTok)])"
proof -
  have "\<exists>e. applyMacroOps_loop refLexer 0 [ident ''a'', quoteTok, ident ''b''] (ops_init [] [])
           = Inr e \<and> stringify e \<noteq> None"
    by (simp add: tok_defs ops_defs reflex_defs applyMacroOps_loop.simps Let_def)
  then obtain e where
    run: "applyMacroOps_loop refLexer 0 [ident ''a'', quoteTok, ident ''b''] (ops_init [] []) = Inr e"
    and active: "stringify e \<noteq> None" by blast
  note t = unterminated_stringify[OF run active]
  have r: "applyMacroOps refLexer 0 [ident ''a'', quoteTok, ident ''b''] [] [] =
     Inr (False, [ident ''a''], [mkDiag ExpectedMacroStringifyEnd (location quoteTok)])"
    by (simp add: tok_defs ops_defs reflex_defs applyMacroOps_loop.simps Let_def mkDiag_def)
  from t r show ?thesis by (intro conjI)
qed

text \<open>Claim C4, as stated, on the buffer \<open>`" a\<close>: the pass succeeds and reports the open
  stringification, and the token \<open>a\<close> stored for it is not in the output.\<close>

theorem unterminated_stringify_not_flushed:
  "(case applyMacroOps refLexer 0 [quoteTok, ident ''a''] [] [] of
      Inr (r, out, ds) \<Rightarrow>
        ds = [mkDiag ExpectedMacroStringifyEnd (location quoteTok)] \<and> ident ''a'' \<notin> set out
    | Inl e \<Rightarrow> False)"
  by (simp add: tok_defs ops_defs reflex_defs applyMacroOps_loop.simps Let_def mkDiag_def)

subsection \<open>Pending trivia\<close>

lemma pending_skip_step:
  assumes p: "emptyArgTrivia st \<noteq> []" and lt: "index st < length tokens"
    and r: "pendingRun [tokens ! index st] st = Some st'"
  shows "ops_iteration lx fuel tokens st = Inr st'"
  using assms
  by (cases st)
     (auto simp: ops_iteration_def ops_step_def ops_switch_def ops_quote_def ops_paste_def
        ops_default_def ops_emit_def pasteIgnored_def Let_def split: if_splits)

lemma pending_skip_keeps:
  assumes "pendingRun [t] st = Some st'"
  shows "index st' = index st + 1 \<and> dest st' = dest st \<and> commentBuffer st' = commentBuffer st \<and>
         syntheticComment st' = syntheticComment st \<and> anyNewMacros st' = anyNewMacros st \<and>
         emptyArgTrivia st' = emptyArgTrivia st @ (if kind t = MacroQuote then [] else trivia t)"
  using assms by (auto split: if_splits)

lemma pendingRun_Cons:
  "pendingRun (t # ts) st = (case pendingRun [t] st of None \<Rightarrow> None | Some st1 \<Rightarrow> pendingRun ts st1)"
  by simp

lemma pendingRun_split:
  "\<exists>ts rest st2. xs = ts @ rest \<and> pendingRun ts st = Some st2 \<and>
     (rest = [] \<or> pendingRun [hd rest] st2 = None)"
proof (induction xs arbitrary: st)
  case Nil
  show ?case by simp
next
  case (Cons x xs)
  show ?case
  proof (cases "pendingRun [x] st")
    case None
    have "x # xs = [] @ (x # xs) \<and> pendingRun [] st = Some st \<and>
        (x # xs = [] \<or> pendingRun [hd (x # xs)] st = None)"
      using None by simp
    then show ?thesis by blast
  next
    case (Some s1)
    from Cons.IH[of s1] obtain ts rest st2 where
      a: "xs = ts @ rest" "pendingRun ts s1 = Some st2"
        "rest = [] \<or> pendingRun [hd rest] st2 = None" by blast
    have "pendingRun (x # ts) st = Some st2"
      using Some a(2) by (subst pendingRun_Cons) simp
    then have "x # xs = (x # ts) @ rest \<and> pendingRun (x # ts) st = Some st2 \<and>
        (rest = [] \<or> pendingRun [hd rest] st2 = None)"
      using a by simp
    then show ?thesis by blast
  qed
qed

lemma pending_run_after:
  "emptyArgTrivia st \<noteq> [] \<Longrightarrow> drop (index st) tokens = ts @ rest \<Longrightarrow>
   pendingRun ts st = Some st' \<Longrightarrow>
   ops_after lx fuel tokens (length ts) st = Inr st' \<and> index st' = index st + length ts \<and>
   dest st' = dest st \<and> commentBuffer st' = commentBuffer st \<and>
   syntheticComment st' = syntheticComment st \<and> anyNewMacros st' = anyNewMacros st \<and>
   emptyArgTrivia st' =
     emptyArgTrivia st @ concat (map trivia (filter (\<lambda>t. kind t \<noteq> MacroQuote) ts))"
proof (induction ts arbitrary: st)
  case Nil
  then show ?case by simp
next
  case (Cons t ts)
  from Cons.prems(2) have lt: "index st < length tokens"
    by (metis drop_all append_Cons list.distinct(1) not_le_imp_less)
  from Cons.prems(2) lt have t: "t = tokens ! index st"
    by (metis Cons_nth_drop_Suc append_Cons list.inject)
  from Cons.prems(2) lt have dr: "drop (Suc (index st)) tokens = ts @ rest"
    by (metis Cons_nth_drop_Suc append_Cons list.inject)
  from Cons.prems(3) obtain st1 where s1: "pendingRun [t] st = Some st1"
    and r: "pendingRun ts st1 = Some st'"
    by (subst (asm) pendingRun_Cons) (auto split: option.splits)
  note k = pending_skip_keeps[OF s1]
  have it: "ops_iteration lx fuel tokens st = Inr st1"
    using pending_skip_step[OF Cons.prems(1) lt] s1 t by simp
  have p1: "emptyArgTrivia st1 \<noteq> []" using k Cons.prems(1) by simp
  have d1: "drop (index st1) tokens = ts @ rest" using k dr by simp
  note ih = Cons.IH[OF p1 d1 r]
  have "ops_after lx fuel tokens (length (t # ts)) st = Inr st'"
    using ih lt it by (simp only: length_Cons ops_after_front) simp
  then show ?case using ih k by simp
qed

lemma pending_store_step:
  assumes p: "emptyArgTrivia st \<noteq> []" and lt: "index st < length tokens"
    and r: "pendingRun [tokens ! index st] st = None"
  shows "ops_step lx tokens st =
     Inr (ops_emit lx (producedToken lx (tokens ! index st) st)
            (afterSwitch (tokens ! index st) st))"
  using assms
  by (cases st)
     (auto simp: ops_step_def ops_switch_def ops_quote_def ops_paste_def producedToken_def
        afterSwitch_def ops_default_def pasteIgnored_def Let_def split: if_splits option.splits)

lemma ops_emit_pending:
  assumes "emptyArgTrivia st \<noteq> []" "kind nt \<noteq> EmptyMacroArgument"
  shows "ops_emit lx nt st = ops_emit lx (giveTrivia (emptyArgTrivia st) nt) (st\<lparr>emptyArgTrivia := []\<rparr>)"
  using assms by (simp add: ops_emit_def giveTrivia_def withTrivia_def Let_def)

lemma ops_emit_dest:
  assumes "emptyArgTrivia st = []" "kind t \<noteq> EmptyMacroArgument" "stringify st = None"
    "syntheticComment st = None"
  shows "ops_emit lx t st = (st\<lparr>dest := dest st @ [t]\<rparr>, None)"
  using assms by (cases st) (simp add: ops_emit_def Let_def)

lemma ops_emit_comment:
  assumes "emptyArgTrivia st = []" "kind t \<noteq> EmptyMacroArgument" "stringify st = None"
    "syntheticComment st \<noteq> None"
  shows "ops_emit lx t st = (st\<lparr>commentBuffer := commentBuffer st @ [t]\<rparr>, None)"
  using assms by (cases st) (simp add: ops_emit_def Let_def)

lemma ops_emit_buffer:
  assumes "emptyArgTrivia st = []" "kind t \<noteq> EmptyMacroArgument" "stringify st \<noteq> None"
  shows "stringifyBuffer (fst (ops_emit lx t st)) = stringifyBuffer st @ [stringifyPiece t] \<and>
         trivia (stringifyPiece t) = trivia t"
  using assms
  by (auto simp: ops_emit_def stringifyPiece_def mkToken_def Let_def
      split: option.splits prod.splits)

lemma pending_fate:
  assumes p: "emptyArgTrivia st1 \<noteq> []" and d: "drop (index st1) tokens = ts @ rest"
    and r: "pendingRun ts st1 = Some st2"
    and nt: "nt = producedToken lx (hd rest) st2" and s0: "s0 = afterSwitch (hd rest) st2"
    and t': "t' = giveTrivia (emptyArgTrivia st2) nt"
  shows "ops_after lx fuel tokens (length ts) st1 = Inr st2 \<and>
     dest st2 = dest st1 \<and> commentBuffer st2 = commentBuffer st1 \<and>
     emptyArgTrivia st2 =
       emptyArgTrivia st1 @ concat (map trivia (filter (\<lambda>t. kind t \<noteq> MacroQuote) ts)) \<and>
     (rest = [] \<longrightarrow> applyMacroOps_loop lx fuel tokens st1 = Inr st2) \<and>
     (rest \<noteq> [] \<and> pendingRun [hd rest] st2 = None \<longrightarrow>
        ops_step lx tokens st2 = Inr (ops_emit lx nt s0) \<and>
        (kind nt \<noteq> EmptyMacroArgument \<longrightarrow>
           ops_step lx tokens st2 = Inr (ops_emit lx t' (s0\<lparr>emptyArgTrivia := []\<rparr>)) \<and>
           (stringify s0 = None \<and> syntheticComment s0 = None \<longrightarrow>
              ops_step lx tokens st2 =
                Inr (s0\<lparr>emptyArgTrivia := [], dest := dest st1 @ [t']\<rparr>, None)) \<and>
           (stringify s0 = None \<and> syntheticComment s0 \<noteq> None \<longrightarrow>
              ops_step lx tokens st2 =
                Inr (s0\<lparr>emptyArgTrivia := [], commentBuffer := commentBuffer st1 @ [t']\<rparr>, None)) \<and>
           (stringify s0 \<noteq> None \<longrightarrow>
              stringifyBuffer (fst (ops_emit lx t' (s0\<lparr>emptyArgTrivia := []\<rparr>))) =
                stringifyBuffer st2 @ [stringifyPiece t'] \<and>
              trivia (stringifyPiece t') = emptyArgTrivia st2 @ trivia nt)))"
proof -
  note a = pending_run_after[OF p d r, of lx fuel]
  have p2: "emptyArgTrivia st2 \<noteq> []" using a p by simp
  have e: "applyMacroOps_loop lx fuel tokens st1 = Inr st2" if "rest = []"
  proof -
    from that a arg_cong[OF d, of length] have "length tokens \<le> index st2" by simp
    then have "applyMacroOps_loop lx fuel tokens st2 = Inr st2"
      by (subst loop_iteration) simp
    then show ?thesis using loop_after[of lx fuel tokens st1 "length ts"] a by simp
  qed
  have s: "ops_step lx tokens st2 = Inr (ops_emit lx nt s0) \<and>
        (kind nt \<noteq> EmptyMacroArgument \<longrightarrow>
           ops_step lx tokens st2 = Inr (ops_emit lx t' (s0\<lparr>emptyArgTrivia := []\<rparr>)) \<and>
           (stringify s0 = None \<and> syntheticComment s0 = None \<longrightarrow>
              ops_step lx tokens st2 =
                Inr (s0\<lparr>emptyArgTrivia := [], dest := dest st1 @ [t']\<rparr>, None)) \<and>
           (stringify s0 = None \<and> syntheticComment s0 \<noteq> None \<longrightarrow>
              ops_step lx tokens st2 =
                Inr (s0\<lparr>emptyArgTrivia := [], commentBuffer := commentBuffer st1 @ [t']\<rparr>, None)) \<and>
           (stringify s0 \<noteq> None \<longrightarrow>
              stringifyBuffer (fst (ops_emit lx t' (s0\<lparr>emptyArgTrivia := []\<rparr>))) =
                stringifyBuffer st2 @ [stringifyPiece t'] \<and>
              trivia (stringifyPiece t') = emptyArgTrivia st2 @ trivia nt))"
    if ne: "rest \<noteq> []" and n: "pendingRun [hd rest] st2 = None"
  proof -
    from ne a arg_cong[OF d, of length] have lt: "index st2 < length tokens"
      by (cases rest) auto
    have "drop (index st1) tokens ! length ts = tokens ! (index st1 + length ts)"
      using lt a by (simp add: nth_drop)
    then have h: "hd rest = tokens ! index st2"
      using ne a unfolding d by (cases rest) (simp_all add: nth_append)
    have st: "ops_step lx tokens st2 = Inr (ops_emit lx nt s0)"
      using pending_store_step[OF p2 lt] n h nt s0 by simp
    have es0: "emptyArgTrivia s0 = emptyArgTrivia st2" "dest s0 = dest st2"
      "commentBuffer s0 = commentBuffer st2" "stringifyBuffer s0 = stringifyBuffer st2"
      by (simp_all add: s0 afterSwitch_def)
    have kt: "kind t' = kind nt" "trivia t' = emptyArgTrivia st2 @ trivia nt"
      by (simp_all add: t' giveTrivia_def withTrivia_def)
    show ?thesis
    proof (intro conjI impI)
      show "ops_step lx tokens st2 = Inr (ops_emit lx nt s0)" by (rule st)
    next
      assume k: "kind nt \<noteq> EmptyMacroArgument"
      show g: "ops_step lx tokens st2 = Inr (ops_emit lx t' (s0\<lparr>emptyArgTrivia := []\<rparr>))"
        using st ops_emit_pending[of s0 nt lx] k p2 es0 t' by simp
      {
        assume "stringify s0 = None \<and> syntheticComment s0 = None"
        then show "ops_step lx tokens st2 =
                Inr (s0\<lparr>emptyArgTrivia := [], dest := dest st1 @ [t']\<rparr>, None)"
          using g ops_emit_dest[of "s0\<lparr>emptyArgTrivia := []\<rparr>" t' lx] k kt es0 a by simp
      }
      {
        assume "stringify s0 = None \<and> syntheticComment s0 \<noteq> None"
        then show "ops_step lx tokens st2 =
                Inr (s0\<lparr>emptyArgTrivia := [], commentBuffer := commentBuffer st1 @ [t']\<rparr>, None)"
          using g ops_emit_comment[of "s0\<lparr>emptyArgTrivia := []\<rparr>" t' lx] k kt es0 a by simp
      }
      {
        assume "stringify s0 \<noteq> None"
        then show "stringifyBuffer (fst (ops_emit lx t' (s0\<lparr>emptyArgTrivia := []\<rparr>))) =
                stringifyBuffer st2 @ [stringifyPiece t']"
          and "trivia (stringifyPiece t') = emptyArgTrivia st2 @ trivia nt"
          using ops_emit_buffer[of "s0\<lparr>emptyArgTrivia := []\<rparr>" t' lx] k kt es0 by simp_all
      }
    qed
  qed
  from a e s show ?thesis by blast
qed




subsection \<open>The returned flag\<close>

text \<open>Claim C7 at the buffer \<open>`def `` ine d\<close>, the four tokens without trivia. The paste
  gives the directive \<open>`define\<close>, which is not a macro usage; the next token continues the
  concatenation and gives the macro usage \<open>`defined\<close>, which is not in the input. The pass
  returns false.\<close>

theorem chained_paste_macro_usage_unreported:
  "applyMacroOps refLexer 0 [usage ''def'', pasteTok, ident ''ine'', ident ''d''] [] []
     = Inr (False, [usage ''defined''], [])
   \<and> isNewMacroUsage (usage ''defined'')
   \<and> usage ''defined'' \<notin> set [usage ''def'', pasteTok, ident ''ine'', ident ''d'']"
  by (simp add: tok_defs ops_defs reflex_defs applyMacroOps_loop.simps Let_def)

section \<open>Properties of argument substitution\<close>

lemma es_append_empty:
  "\<exists>es'. es_append (mkToken EmptyMacroArgument tr [] loc) es = Inr (True, es') \<and>
     expDest (expansion es') = expDest (expansion es) @
       [mkToken EmptyMacroArgument
          (if any (expansion es) then tr
           else if isTopLevel (expansion es) then [] else trivia (usageSite (expansion es))) []
          (fst (adjustLoc (mkToken EmptyMacroArgument tr [] loc) (expansionLoc es) (start es) (prep es)))]"
  by (cases "adjustLoc (mkToken EmptyMacroArgument tr [] loc) (expansionLoc es) (start es) (prep es)")
     (auto simp: es_append_def appendTok_def appendAt_def mkToken_def withTrivia_def
        withLocation_def Let_def)

lemma adjustLoc_location:
  "location t = location t' \<Longrightarrow> adjustLoc t ml fl pp = adjustLoc t' ml fl pp"
  by (simp add: adjustLoc_def)

lemma handleToken_empty_argument:
  assumes subs: "substitutable token" and ftext: "formalText token = Inr nm"
    and arg: "argumentMap es nm = Some (argTokens, isExpanded)"
    and empty: "(isExpanded \<and> argTokens = [] \<and> pp1 = prep es) \<or>
       (\<not> isExpanded \<and> expandArg argTokens (prep es) = Inr (True, r) \<and> erl_tokens r = [] \<and>
        pp1 = erl_pp r)"
  shows "\<exists>es'. handleToken lx expandArg token es = Inr (True, es') \<and>
     expDest (expansion es') = expDest (expansion es) @
       [mkToken EmptyMacroArgument (firstTrivia (expansion es) token) []
          (fst (adjustLoc token (expansionLoc es) (start es) pp1))]"
proof -
  define es1 where "es1 = (if inDefineDirective es \<and> \<not> isOnSameLine token
                then es\<lparr>inDefineDirective := False\<rparr> else es)"
  have f: "expansion es1 = expansion es" "expansionLoc es1 = expansionLoc es"
    "start es1 = start es" "prep es1 = prep es" "argumentMap es1 = argumentMap es"
    by (simp_all add: es1_def)
  define es2 where "es2 = (if isExpanded then es1
     else es1\<lparr>prep := erl_pp r, argumentMap := (argumentMap es1)(nm \<mapsto> (erl_tokens r, True))\<rparr>)"
  have f2: "expansion es2 = expansion es" "expansionLoc es2 = expansionLoc es"
    "start es2 = start es" "prep es2 = pp1"
    using f empty by (auto simp: es2_def)
  have h: "handleToken lx expandArg token es = substituteArg lx token [] es2"
    using subs ftext arg empty f
    by (auto simp: handleToken_def substitutable_def Let_def es1_def[symmetric] es2_def)
  have al: "adjustLoc (mkToken EmptyMacroArgument (trivia token) [] (location token))
              (expansionLoc es2) (start es2) (prep es2)
            = adjustLoc token (expansionLoc es) (start es) pp1"
    using f2 by (simp add: adjustLoc_def mkToken_def)
  from es_append_empty[of "trivia token" "location token" es2]
  obtain es' where e: "es_append (mkToken EmptyMacroArgument (trivia token) [] (location token)) es2
        = Inr (True, es')"
    "expDest (expansion es') = expDest (expansion es2) @
       [mkToken EmptyMacroArgument
          (if any (expansion es2) then trivia token
           else if isTopLevel (expansion es2) then [] else trivia (usageSite (expansion es2))) []
          (fst (adjustLoc (mkToken EmptyMacroArgument (trivia token) [] (location token))
                  (expansionLoc es2) (start es2) (prep es2)))]"
    by blast
  have "handleToken lx expandArg token es = Inr (True, es')"
    unfolding h using e(1) by (simp add: substituteArg_def)
  moreover have "expDest (expansion es') = expDest (expansion es) @
       [mkToken EmptyMacroArgument (firstTrivia (expansion es) token) []
          (fst (adjustLoc token (expansionLoc es) (start es) pp1))]"
    using e(2) unfolding al by (simp add: f2 firstTrivia_def)
  ultimately show ?thesis by blast
qed

lemma ops_step_empty_argument:
  assumes "kind (tokens ! index st) = EmptyMacroArgument"
    and "didConcat st \<and> trivia (tokens ! index st) = [] \<and> emptyArgTrivia st = [] \<longrightarrow>
       dest st \<noteq> [] \<and> Lexer_concatenateTokens lx (last (dest st)) (tokens ! index st) = None"
  shows "ops_step lx tokens st
     = Inr (st\<lparr>emptyArgTrivia := emptyArgTrivia st @ trivia (tokens ! index st),
               didConcat := False\<rparr>, None)"
  using assms
  by (cases st)
     (auto simp: ops_step_def ops_switch_def ops_default_def ops_emit_def Let_def)

lemma empty_argument_pass:
  assumes reached: "index st < length tokens"
    and empty: "kind (tokens ! index st) = EmptyMacroArgument"
    and chain: "didConcat st \<and> trivia (tokens ! index st) = [] \<and> emptyArgTrivia st = [] \<longrightarrow>
       dest st \<noteq> [] \<and> Lexer_concatenateTokens lx (last (dest st)) (tokens ! index st) = None"
    and st1: "st1 = st\<lparr>emptyArgTrivia := emptyArgTrivia st @ trivia (tokens ! index st),
              didConcat := False, index := index st + 1\<rparr>"
    and nt: "nt = producedToken lx (hd rest) st2" and s0: "s0 = afterSwitch (hd rest) st2"
    and t': "t' = giveTrivia (emptyArgTrivia st2) nt"
  shows "ops_step lx tokens st = Inr (st1\<lparr>index := index st\<rparr>, None) \<and>
    (emptyArgTrivia st1 \<noteq> [] \<and> drop (index st + 1) tokens = ts @ rest \<and>
     pendingRun ts st1 = Some st2 \<longrightarrow>
       ops_after lx fuel tokens (Suc (length ts)) st = Inr st2 \<and>
       dest st2 = dest st \<and> commentBuffer st2 = commentBuffer st \<and>
       emptyArgTrivia st2 =
         emptyArgTrivia st1 @ concat (map trivia (filter (\<lambda>t. kind t \<noteq> MacroQuote) ts)) \<and>
       (rest = [] \<longrightarrow> applyMacroOps_loop lx fuel tokens st = Inr st2) \<and>
       (rest \<noteq> [] \<and> pendingRun [hd rest] st2 = None \<longrightarrow>
          ops_step lx tokens st2 = Inr (ops_emit lx nt s0) \<and>
          (kind nt \<noteq> EmptyMacroArgument \<longrightarrow>
             ops_step lx tokens st2 = Inr (ops_emit lx t' (s0\<lparr>emptyArgTrivia := []\<rparr>)) \<and>
             (stringify s0 = None \<and> syntheticComment s0 = None \<longrightarrow>
                ops_step lx tokens st2 =
                  Inr (s0\<lparr>emptyArgTrivia := [], dest := dest st @ [t']\<rparr>, None)) \<and>
             (stringify s0 = None \<and> syntheticComment s0 \<noteq> None \<longrightarrow>
                ops_step lx tokens st2 =
                  Inr (s0\<lparr>emptyArgTrivia := [], commentBuffer := commentBuffer st @ [t']\<rparr>, None)) \<and>
             (stringify s0 \<noteq> None \<longrightarrow>
                stringifyBuffer (fst (ops_emit lx t' (s0\<lparr>emptyArgTrivia := []\<rparr>))) =
                  stringifyBuffer st2 @ [stringifyPiece t'] \<and>
                trivia (stringifyPiece t') = emptyArgTrivia st2 @ trivia nt)))) \<and>
    (\<exists>ts' rest' st2'. drop (index st + 1) tokens = ts' @ rest' \<and>
       pendingRun ts' st1 = Some st2' \<and>
       (rest' = [] \<or> pendingRun [hd rest'] st2' = None))"
proof -
  have "ops_step lx tokens st
     = Inr (st\<lparr>emptyArgTrivia := emptyArgTrivia st @ trivia (tokens ! index st),
               didConcat := False\<rparr>, None)"
    using ops_step_empty_argument[OF empty chain] .
  then have first: "ops_step lx tokens st = Inr (st1\<lparr>index := index st\<rparr>, None)"
    using st1 by (cases st) simp
  have it: "ops_iteration lx fuel tokens st = Inr st1"
    using first st1 by (simp add: ops_iteration_def)
  have sel: "index st1 = index st + 1" "dest st1 = dest st" "commentBuffer st1 = commentBuffer st"
    by (simp_all add: st1)
  have rest: "ops_after lx fuel tokens (Suc (length ts)) st = Inr st2 \<and>
       dest st2 = dest st \<and> commentBuffer st2 = commentBuffer st \<and>
       emptyArgTrivia st2 =
         emptyArgTrivia st1 @ concat (map trivia (filter (\<lambda>t. kind t \<noteq> MacroQuote) ts)) \<and>
       (rest = [] \<longrightarrow> applyMacroOps_loop lx fuel tokens st = Inr st2) \<and>
       (rest \<noteq> [] \<and> pendingRun [hd rest] st2 = None \<longrightarrow>
          ops_step lx tokens st2 = Inr (ops_emit lx nt s0) \<and>
          (kind nt \<noteq> EmptyMacroArgument \<longrightarrow>
             ops_step lx tokens st2 = Inr (ops_emit lx t' (s0\<lparr>emptyArgTrivia := []\<rparr>)) \<and>
             (stringify s0 = None \<and> syntheticComment s0 = None \<longrightarrow>
                ops_step lx tokens st2 =
                  Inr (s0\<lparr>emptyArgTrivia := [], dest := dest st @ [t']\<rparr>, None)) \<and>
             (stringify s0 = None \<and> syntheticComment s0 \<noteq> None \<longrightarrow>
                ops_step lx tokens st2 =
                  Inr (s0\<lparr>emptyArgTrivia := [], commentBuffer := commentBuffer st @ [t']\<rparr>, None)) \<and>
             (stringify s0 \<noteq> None \<longrightarrow>
                stringifyBuffer (fst (ops_emit lx t' (s0\<lparr>emptyArgTrivia := []\<rparr>))) =
                  stringifyBuffer st2 @ [stringifyPiece t'] \<and>
                trivia (stringifyPiece t') = emptyArgTrivia st2 @ trivia nt)))"
    if p: "emptyArgTrivia st1 \<noteq> []" and d: "drop (index st + 1) tokens = ts @ rest"
      and r: "pendingRun ts st1 = Some st2"
  proof -
    have dA: "drop (index st1) tokens = ts @ rest" using d sel by simp
    note f = pending_fate[OF p dA r nt s0 t', of fuel, unfolded sel]
    have f1: "ops_after lx fuel tokens (Suc (length ts)) st = Inr st2"
      using f reached it by (simp only: ops_after_front) simp
    have eq: "applyMacroOps_loop lx fuel tokens st = applyMacroOps_loop lx fuel tokens st1"
      using reached it by (subst loop_iteration) simp
    show ?thesis unfolding eq using f1 f by (elim conjE) (intro conjI, assumption+)
  qed
  from first rest pendingRun_split[of "drop (index st + 1) tokens" st1]
  show ?thesis by blast
qed

text \<open>Claim C8 (as amended). When \<open>handleToken\<close> substitutes a formal parameter whose
  argument, after its expansion, has no tokens, it appends exactly one token of kind
  \<open>EmptyMacroArgument\<close> with empty text to the expansion. The token is built with the
  trivia and location of the formal parameter's occurrence, and \<open>append\<close> stores it, as
  every token, at the location mapped into the expansion and, when it is the first token
  of the expansion, with the trivia of the usage site (none at top level) instead. The
  rewrite pass, at such a token that does not continue a concatenation, emits nothing and
  appends the token's trivia to \<open>emptyArgTrivia\<close>. When that leaves trivia pending, the scan
  passes over the tokens \<open>ts\<close> that follow as long as they are operators \<open>``\<close> (ignored),
  further empty arguments or an opening \<open>`"\<close>: nothing is stored, and the trivia of these
  operators and empty arguments is added to the pending trivia. If the buffer ends there,
  the loop ends and the pending trivia is dropped. Otherwise the next token is an ordinary
  token or a closing \<open>`"\<close>, and the token that the iteration produces for it (itself, or
  the string literal) is stored with the pending trivia in front of its own trivia: in the
  destination when neither a stringification nor a synthetic comment is open, in the
  comment buffer when only a comment is open, and in the stringify buffer (for an escaped
  identifier with \<open>`"\<close>, its first piece) when a stringification is open.\<close>

theorem empty_argument_token:
  "(substitutable token \<and> formalText token = Inr nm \<and>
    argumentMap es nm = Some (argTokens, isExpanded) \<and>
    ((isExpanded \<and> argTokens = [] \<and> pp1 = prep es) \<or>
     (\<not> isExpanded \<and> expandArg argTokens (prep es) = Inr (True, r) \<and> erl_tokens r = [] \<and>
      pp1 = erl_pp r)) \<longrightarrow>
    (\<exists>es'. handleToken lx expandArg token es = Inr (True, es') \<and>
       expDest (expansion es') = expDest (expansion es) @
         [mkToken EmptyMacroArgument (firstTrivia (expansion es) token) []
            (fst (adjustLoc token (expansionLoc es) (start es) pp1))]))
 \<and> (index st < length tokens \<and> kind (tokens ! index st) = EmptyMacroArgument \<and>
    (didConcat st \<and> trivia (tokens ! index st) = [] \<and> emptyArgTrivia st = [] \<longrightarrow>
       dest st \<noteq> [] \<and> Lexer_concatenateTokens lx (last (dest st)) (tokens ! index st) = None) \<and>
    st1 = st\<lparr>emptyArgTrivia := emptyArgTrivia st @ trivia (tokens ! index st),
              didConcat := False, index := index st + 1\<rparr> \<and>
    nt = producedToken lx (hd rest) st2 \<and> s0 = afterSwitch (hd rest) st2 \<and>
    t' = giveTrivia (emptyArgTrivia st2) nt \<longrightarrow>
    ops_step lx tokens st = Inr (st1\<lparr>index := index st\<rparr>, None) \<and>
    (emptyArgTrivia st1 \<noteq> [] \<and> drop (index st + 1) tokens = ts @ rest \<and>
     pendingRun ts st1 = Some st2 \<longrightarrow>
       ops_after lx fuel tokens (Suc (length ts)) st = Inr st2 \<and>
       dest st2 = dest st \<and> commentBuffer st2 = commentBuffer st \<and>
       emptyArgTrivia st2 =
         emptyArgTrivia st1 @ concat (map trivia (filter (\<lambda>t. kind t \<noteq> MacroQuote) ts)) \<and>
       (rest = [] \<longrightarrow> applyMacroOps_loop lx fuel tokens st = Inr st2) \<and>
       (rest \<noteq> [] \<and> pendingRun [hd rest] st2 = None \<longrightarrow>
          ops_step lx tokens st2 = Inr (ops_emit lx nt s0) \<and>
          (kind nt \<noteq> EmptyMacroArgument \<longrightarrow>
             ops_step lx tokens st2 = Inr (ops_emit lx t' (s0\<lparr>emptyArgTrivia := []\<rparr>)) \<and>
             (stringify s0 = None \<and> syntheticComment s0 = None \<longrightarrow>
                ops_step lx tokens st2 =
                  Inr (s0\<lparr>emptyArgTrivia := [], dest := dest st @ [t']\<rparr>, None)) \<and>
             (stringify s0 = None \<and> syntheticComment s0 \<noteq> None \<longrightarrow>
                ops_step lx tokens st2 =
                  Inr (s0\<lparr>emptyArgTrivia := [], commentBuffer := commentBuffer st @ [t']\<rparr>, None)) \<and>
             (stringify s0 \<noteq> None \<longrightarrow>
                stringifyBuffer (fst (ops_emit lx t' (s0\<lparr>emptyArgTrivia := []\<rparr>))) =
                  stringifyBuffer st2 @ [stringifyPiece t'] \<and>
                trivia (stringifyPiece t') = emptyArgTrivia st2 @ trivia nt)))) \<and>
    (\<exists>ts' rest' st2'. drop (index st + 1) tokens = ts' @ rest' \<and>
       pendingRun ts' st1 = Some st2' \<and>
       (rest' = [] \<or> pendingRun [hd rest'] st2' = None)))"
proof (rule conjI)
  show "substitutable token \<and> formalText token = Inr nm \<and>
    argumentMap es nm = Some (argTokens, isExpanded) \<and>
    ((isExpanded \<and> argTokens = [] \<and> pp1 = prep es) \<or>
     (\<not> isExpanded \<and> expandArg argTokens (prep es) = Inr (True, r) \<and> erl_tokens r = [] \<and>
      pp1 = erl_pp r)) \<longrightarrow>
    (\<exists>es'. handleToken lx expandArg token es = Inr (True, es') \<and>
       expDest (expansion es') = expDest (expansion es) @
         [mkToken EmptyMacroArgument (firstTrivia (expansion es) token) []
            (fst (adjustLoc token (expansionLoc es) (start es) pp1))])"
    using handleToken_empty_argument by blast
next
  show "index st < length tokens \<and> kind (tokens ! index st) = EmptyMacroArgument \<and>
    (didConcat st \<and> trivia (tokens ! index st) = [] \<and> emptyArgTrivia st = [] \<longrightarrow>
       dest st \<noteq> [] \<and> Lexer_concatenateTokens lx (last (dest st)) (tokens ! index st) = None) \<and>
    st1 = st\<lparr>emptyArgTrivia := emptyArgTrivia st @ trivia (tokens ! index st),
              didConcat := False, index := index st + 1\<rparr> \<and>
    nt = producedToken lx (hd rest) st2 \<and> s0 = afterSwitch (hd rest) st2 \<and>
    t' = giveTrivia (emptyArgTrivia st2) nt \<longrightarrow>
    ops_step lx tokens st = Inr (st1\<lparr>index := index st\<rparr>, None) \<and>
    (emptyArgTrivia st1 \<noteq> [] \<and> drop (index st + 1) tokens = ts @ rest \<and>
     pendingRun ts st1 = Some st2 \<longrightarrow>
       ops_after lx fuel tokens (Suc (length ts)) st = Inr st2 \<and>
       dest st2 = dest st \<and> commentBuffer st2 = commentBuffer st \<and>
       emptyArgTrivia st2 =
         emptyArgTrivia st1 @ concat (map trivia (filter (\<lambda>t. kind t \<noteq> MacroQuote) ts)) \<and>
       (rest = [] \<longrightarrow> applyMacroOps_loop lx fuel tokens st = Inr st2) \<and>
       (rest \<noteq> [] \<and> pendingRun [hd rest] st2 = None \<longrightarrow>
          ops_step lx tokens st2 = Inr (ops_emit lx nt s0) \<and>
          (kind nt \<noteq> EmptyMacroArgument \<longrightarrow>
             ops_step lx tokens st2 = Inr (ops_emit lx t' (s0\<lparr>emptyArgTrivia := []\<rparr>)) \<and>
             (stringify s0 = None \<and> syntheticComment s0 = None \<longrightarrow>
                ops_step lx tokens st2 =
                  Inr (s0\<lparr>emptyArgTrivia := [], dest := dest st @ [t']\<rparr>, None)) \<and>
             (stringify s0 = None \<and> syntheticComment s0 \<noteq> None \<longrightarrow>
                ops_step lx tokens st2 =
                  Inr (s0\<lparr>emptyArgTrivia := [], commentBuffer := commentBuffer st @ [t']\<rparr>, None)) \<and>
             (stringify s0 \<noteq> None \<longrightarrow>
                stringifyBuffer (fst (ops_emit lx t' (s0\<lparr>emptyArgTrivia := []\<rparr>))) =
                  stringifyBuffer st2 @ [stringifyPiece t'] \<and>
                trivia (stringifyPiece t') = emptyArgTrivia st2 @ trivia nt)))) \<and>
    (\<exists>ts' rest' st2'. drop (index st + 1) tokens = ts' @ rest' \<and>
       pendingRun ts' st1 = Some st2' \<and>
       (rest' = [] \<or> pendingRun [hd rest'] st2' = None))"
    by (rule impI, elim conjE, rule empty_argument_pass)
qed

text \<open>The theorem on the occurrence of \<open>a\<close>, preceded by a space, in the body of \<open>M(a)\<close>
  used as \<open>`M()\<close>, and on the buffer of the empty argument followed by \<open>c\<close>.\<close>

theorem empty_argument_token_witness:
  "(\<exists>es'. handleToken refLexer (\<lambda>ts pp. Inl OutOfFuel) (withTrivia (ident ''a'') [space])
             emptyArgState = Inr (True, es') \<and>
       expDest (expansion es') =
         [ident ''b'', mkToken EmptyMacroArgument [space] [] \<lparr>bufferID = 1, offset = 0\<rparr>])
   \<and> ops_step refLexer emptyArgBuffer (ops_init [] [])
      = Inr ((ops_init [] [])\<lparr>emptyArgTrivia := [space]\<rparr>, None)
   \<and> ops_after refLexer 0 emptyArgBuffer 1 (ops_init [] [])
      = Inr ((ops_init [] [])\<lparr>emptyArgTrivia := [space], index := 1\<rparr>)
   \<and> ops_step refLexer emptyArgBuffer ((ops_init [] [])\<lparr>emptyArgTrivia := [space], index := 1\<rparr>)
      = Inr ((ops_init [] [])\<lparr>index := 1, dest := [withTrivia (ident ''c'') [space]]\<rparr>, None)"
proof -
  define S1 where "S1 = (ops_init [] [])\<lparr>emptyArgTrivia := [space], index := 1\<rparr>"
  have v: "valueText (withTrivia (ident ''a'') [space]) = ''a''"
    by (simp add: valueText_def withTrivia_def ident_def mkToken_def backslash_def)
  have k: "kind (withTrivia (ident ''a'') [space]) = Identifier"
    by (simp add: withTrivia_def ident_def mkToken_def)
  have g: "substitutable (withTrivia (ident ''a'') [space]) \<and>
      formalText (withTrivia (ident ''a'') [space]) = Inr ''a'' \<and>
      argumentMap emptyArgState ''a'' = Some ([], True) \<and>
      ((True \<and> [] = ([]::Token list) \<and> prep emptyArgState = prep emptyArgState) \<or>
       (\<not> True \<and> (\<lambda>ts pp. Inl OutOfFuel) ([]::Token list) (prep emptyArgState) = Inr (True, r) \<and>
        erl_tokens r = [] \<and> prep emptyArgState = erl_pp r))"
    by (simp add: substitutable_def formalText_def k v emptyArgState_def)
  have h: "index (ops_init [] []) < length emptyArgBuffer \<and>
      kind (emptyArgBuffer ! index (ops_init [] [])) = EmptyMacroArgument \<and>
      (didConcat (ops_init [] []) \<and> trivia (emptyArgBuffer ! index (ops_init [] [])) = [] \<and>
       emptyArgTrivia (ops_init [] []) = [] \<longrightarrow>
        dest (ops_init [] []) \<noteq> [] \<and>
        Lexer_concatenateTokens refLexer (last (dest (ops_init [] [])))
          (emptyArgBuffer ! index (ops_init [] [])) = None) \<and>
      S1 = (ops_init [] [])\<lparr>emptyArgTrivia := emptyArgTrivia (ops_init [] []) @
                 trivia (emptyArgBuffer ! index (ops_init [] [])),
              didConcat := False, index := index (ops_init [] []) + 1\<rparr> \<and>
      producedToken refLexer (hd [ident ''c'']) S1 = producedToken refLexer (hd [ident ''c'']) S1 \<and>
      afterSwitch (hd [ident ''c'']) S1 = afterSwitch (hd [ident ''c'']) S1 \<and>
      giveTrivia (emptyArgTrivia S1) (producedToken refLexer (hd [ident ''c'']) S1) =
        giveTrivia (emptyArgTrivia S1) (producedToken refLexer (hd [ident ''c'']) S1)"
    by (simp add: S1_def ops_init_def emptyArgBuffer_def mkToken_def)
  note A = empty_argument_token[where token="withTrivia (ident ''a'') [space]" and nm="''a''"
      and es=emptyArgState and argTokens="[]" and isExpanded=True
      and ?pp1.0="prep emptyArgState" and lx=refLexer and expandArg="\<lambda>ts pp. Inl OutOfFuel"
      and r=r and fuel=0 and tokens=emptyArgBuffer
      and st="ops_init [] []" and ?st1.0=S1 and ts="[]" and rest="[ident ''c'']"
      and ?st2.0=S1 and nt="producedToken refLexer (hd [ident ''c'']) S1"
      and ?s0.0="afterSwitch (hd [ident ''c'']) S1"
      and t'="giveTrivia (emptyArgTrivia S1) (producedToken refLexer (hd [ident ''c'']) S1)"]
  note t = A[THEN conjunct2, THEN mp, OF h]
  have part1: "\<exists>es'. handleToken refLexer (\<lambda>ts pp. Inl OutOfFuel) (withTrivia (ident ''a'') [space])
             emptyArgState = Inr (True, es') \<and>
       expDest (expansion es') =
         [ident ''b'', mkToken EmptyMacroArgument [space] [] \<lparr>bufferID = 1, offset = 0\<rparr>]"
    using A[THEN conjunct1, THEN mp, OF g]
    by (simp add: emptyArgState_def firstTrivia_def newExpansion_def adjustLoc_def withTrivia_def
        ident_def mkToken_def NoLocation_def locPlus_def locDiff_def createExpansionLoc_def
        ppWith_def)
  have pre: "emptyArgTrivia S1 \<noteq> [] \<and>
     drop (index (ops_init [] []) + 1) emptyArgBuffer = [] @ [ident ''c''] \<and>
     pendingRun [] S1 = Some S1"
    by (simp add: S1_def ops_init_def emptyArgBuffer_def)
  have nxt: "[ident ''c''] \<noteq> [] \<and> pendingRun [hd [ident ''c'']] S1 = None"
    by (simp add: S1_def ops_init_def ident_def mkToken_def)
  have kn: "kind (producedToken refLexer (hd [ident ''c'']) S1) \<noteq> EmptyMacroArgument"
    by (simp add: producedToken_def S1_def ops_init_def ident_def mkToken_def)
  have n: "stringify (afterSwitch (hd [ident ''c'']) S1) = None \<and>
           syntheticComment (afterSwitch (hd [ident ''c'']) S1) = None"
    by (simp add: afterSwitch_def S1_def ops_init_def)
  note a = t[THEN conjunct1]
  note m = t[THEN conjunct2, THEN conjunct1, THEN mp, OF pre]
  note b = m[THEN conjunct1]
  note d = m[THEN conjunct2, THEN conjunct2, THEN conjunct2, THEN conjunct2, THEN conjunct2,
      THEN mp, OF nxt, THEN conjunct2, THEN mp, OF kn, THEN conjunct2, THEN conjunct1, THEN mp, OF n]
  have e: "S1\<lparr>index := index (ops_init [] [])\<rparr> = (ops_init [] [])\<lparr>emptyArgTrivia := [space]\<rparr>"
    "Suc (length ([]::Token list)) = 1"
    "(afterSwitch (hd [ident ''c'']) S1)\<lparr>emptyArgTrivia := [],
        dest := dest (ops_init [] []) @
          [giveTrivia (emptyArgTrivia S1) (producedToken refLexer (hd [ident ''c'']) S1)]\<rparr>
     = (ops_init [] [])\<lparr>index := 1, dest := [withTrivia (ident ''c'') [space]]\<rparr>"
    by (simp_all add: S1_def ops_init_def afterSwitch_def giveTrivia_def producedToken_def
        withTrivia_def ident_def mkToken_def)
  show ?thesis using part1 a[unfolded e] b[unfolded e] d[unfolded e] unfolding S1_def[symmetric]
    by (intro conjI)
qed

text \<open>Claim C8, as stated, on \<open>`M()\<close> at top level with the body of \<open>M(a)\<close> being \<open>a\<close>
  preceded by a space: the token appended for the empty argument has no trivia, while the
  occurrence of the formal parameter has the space; and its location is in the expansion
  buffer, not that of the occurrence.\<close>

theorem empty_argument_first_token:
  "(case expandMacro refLexer 1
           (functionMacro 1 ''M'' [''a''] [withTrivia (ident ''a'') [space]])
           (newExpansion (usage ''M'') True) (Some emptyArgs) (ppWith Map.empty []) of
      Inr (ok, e, pp') \<Rightarrow>
        ok \<and> expDest e = [mkToken EmptyMacroArgument [] [] \<lparr>bufferID = 1, offset = 0\<rparr>]
    | Inl err \<Rightarrow> False)
   \<and> trivia (withTrivia (ident ''a'') [space]) = [space]
   \<and> location (withTrivia (ident ''a'') [space]) = \<lparr>bufferID = 0, offset = 0\<rparr>"
  by (simp add: expandMacro_def expandMacro_with_def functionMacro_def isIntrinsic_def
      emptyArgs_def plainTok_def valueText_def backslash_def expandBodyToken_def splitIndex_def
      handleToken_def formalText_def isKeyword_def erl_loop.simps erl_init_def setBuffer_def
      parser_next_def erl_tokens_def substituteArg_def es_append_def appendTok_def appendAt_def
      adjustLoc_def createExpansionLoc_def newExpansion_def ppWith_def withTrivia_def
      withLocation_def ident_def mkToken_def NoLocation_def locPlus_def locDiff_def Let_def
      isOnSameLine_def)

section \<open>Termination of handleTopLevelMacro\<close>

lemma erl_lookup_keep:
  "erlKeeps (erl_pp st) t \<Longrightarrow> erl_lookup t st = Inr (Keep (st\<lparr>outBuffer := outBuffer st @ [t]\<rparr>))"
  by (auto simp: erlKeeps_def erl_lookup_def split: sum.splits)

lemma erl_loop_keeps:
  "currentIndex (parser st) \<le> length (buffer (parser st)) \<Longrightarrow>
   \<forall>t \<in> set (drop (currentIndex (parser st)) (buffer (parser st))). erlKeeps (erl_pp st) t \<Longrightarrow>
   erl_loop lx fuel st =
     (if length (buffer (parser st)) - currentIndex (parser st) < fuel
      then Inr (True, st\<lparr>parser := (parser st)\<lparr>currentIndex := length (buffer (parser st))\<rparr>,
                         outBuffer := outBuffer st @
                            drop (currentIndex (parser st)) (buffer (parser st))\<rparr>)
      else Inl OutOfFuel)"
proof (induction fuel arbitrary: st)
  case 0
  then show ?case by (simp add: erl_loop.simps)
next
  case (Suc fuel)
  show ?case
  proof (cases "currentIndex (parser st) < length (buffer (parser st))")
    case False
    then have "currentIndex (parser st) = length (buffer (parser st))" using Suc.prems(1) by simp
    then show ?thesis by (cases st) (simp add: erl_loop.simps parser_next_def)
  next
    case True
    define t where "t = buffer (parser st) ! currentIndex (parser st)"
    define p1 where "p1 = (parser st)\<lparr>currentIndex := currentIndex (parser st) + 1\<rparr>"
    define st1 where "st1 = st\<lparr>parser := p1, outBuffer := outBuffer st @ [t]\<rparr>"
    have dr: "drop (currentIndex (parser st)) (buffer (parser st))
        = t # drop (Suc (currentIndex (parser st))) (buffer (parser st))"
      using True by (simp add: t_def Cons_nth_drop_Suc)
    then have kt: "erlKeeps (erl_pp st) t" using Suc.prems(2) by simp
    have lk: "erl_lookup t (st\<lparr>parser := p1\<rparr>) = Inr (Keep st1)"
      using erl_lookup_keep[of "st\<lparr>parser := p1\<rparr>" t] kt by (simp add: st1_def)
    have pn: "parser_next (parser st) = (Some t, p1)"
      using True by (simp add: parser_next_def t_def p1_def)
    have step: "erl_loop lx (Suc fuel) st = erl_loop lx fuel st1"
      by (simp add: erl_loop.simps pn lk)
    have "currentIndex (parser st1) \<le> length (buffer (parser st1))"
      using True by (simp add: st1_def p1_def)
    moreover have "\<forall>t \<in> set (drop (currentIndex (parser st1)) (buffer (parser st1))).
        erlKeeps (erl_pp st1) t"
      using Suc.prems(2) dr by (simp add: st1_def p1_def)
    ultimately have "erl_loop lx fuel st1 =
     (if length (buffer (parser st1)) - currentIndex (parser st1) < fuel
      then Inr (True, st1\<lparr>parser := (parser st1)\<lparr>currentIndex := length (buffer (parser st1))\<rparr>,
                         outBuffer := outBuffer st1 @
                            drop (currentIndex (parser st1)) (buffer (parser st1))\<rparr>)
      else Inl OutOfFuel)"
      by (rule Suc.IH)
    then show ?thesis unfolding step using True dr
      by (cases st) (auto simp: st1_def p1_def)
  qed
qed

lemma bodyAt_kept: "macros pp = tabT \<Longrightarrow> \<forall>t \<in> set (bodyAt l). erlKeeps pp t"
  by (simp add: bodyAt_def erlKeeps_def withLocation_def usage_def pasteTok_def ident_def
      mkToken_def findMacro_def valueText_def substr_def tabT_def nullMacro_def valid_def
      backslash_def)

lemma expand_AA:
  "isAA X \<Longrightarrow>
   expandMacro_with refLexer ea (objectMacro 20 ''AA'' [usage ''A'', pasteTok, ident ''A''])
      (newExpansion X False) None pp
     = Inr (True, \<lparr>expDest = bodyAt \<lparr>bufferID = nextBuffer pp, offset = 0\<rparr>, usageSite = X,
                   isTopLevel = False, any = True\<rparr>, pp\<lparr>nextBuffer := Suc (nextBuffer pp)\<rparr>)"
  by (simp add: isAA_def expandMacro_with_def objectMacro_def isIntrinsic_def newExpansion_def
      createExpansionLoc_def appendTok_def adjustLoc_def appendAt_def bodyAt_def usage_def
      pasteTok_def ident_def mkToken_def NoLocation_def withTrivia_def withLocation_def
      locPlus_def locDiff_def Let_def)

lemma lookup_AA:
  "isAA X \<Longrightarrow> macros (erl_pp st) = tabT \<Longrightarrow> alreadyExpanded st = {Some 10} \<Longrightarrow>
   erl_lookup X st
     = Inr (Expand (objectMacro 20 ''AA'' [usage ''A'', pasteTok, ident ''A'']) None st)"
  by (simp add: isAA_def erl_lookup_def findMacro_def valueText_def substr_def tabT_def
      objectMacro_def valid_def isIntrinsic_def syntaxPtr_def needsArgs_def backslash_def
      grave_def)

lemma erl_init_sel:
  "outBuffer (erl_init t a p) = []" "expandedSomething (erl_init t a p) = False"
  "parser (erl_init t a p) = setBuffer t" "alreadyExpanded (erl_init t a p) = a"
  "erl_pp (erl_init t a p) = p"
  by (simp_all add: erl_init_def)

lemma erl_round:
  assumes X: "isAA X" and tab: "macros pp = tabT"
  shows "expandReplacementList refLexer fuel [X] {Some 10} pp = Inl OutOfFuel \<or>
         expandReplacementList refLexer fuel [X] {Some 10} pp
           = Inr (True, bodyAt \<lparr>bufferID = nextBuffer pp, offset = 0\<rparr>, True, {Some 10},
                  pp\<lparr>nextBuffer := Suc (nextBuffer pp)\<rparr>)"
proof (cases fuel)
  case 0
  then show ?thesis by (simp add: expandReplacementList_def erl_loop.simps)
next
  case (Suc f)
  define st0 where "st0 = erl_init [X] {Some 10} pp"
  define p1 where "p1 = \<lparr>buffer = [X], currentIndex = 1\<rparr>"
  have pn: "parser_next (parser st0) = (Some X, p1)"
    by (simp add: st0_def erl_init_def setBuffer_def parser_next_def p1_def)
  have lk: "erl_lookup X (st0\<lparr>parser := p1\<rparr>)
     = Inr (Expand (objectMacro 20 ''AA'' [usage ''A'', pasteTok, ident ''A'']) None
              (st0\<lparr>parser := p1\<rparr>))"
    using lookup_AA[OF X, of "st0\<lparr>parser := p1\<rparr>"] tab by (simp add: st0_def erl_init_def)
  have tabp: "macros (pp\<lparr>nextBuffer := Suc (nextBuffer pp)\<rparr>) = tabT" using tab by simp
  have subrun: "erl_loop refLexer f
       (erl_init (bodyAt \<lparr>bufferID = nextBuffer pp, offset = 0\<rparr>) {Some 20, Some 10}
          (pp\<lparr>nextBuffer := Suc (nextBuffer pp)\<rparr>)) =
     (if 3 < f
      then Inr (True, (erl_init (bodyAt \<lparr>bufferID = nextBuffer pp, offset = 0\<rparr>)
                         {Some 20, Some 10} (pp\<lparr>nextBuffer := Suc (nextBuffer pp)\<rparr>))
                 \<lparr>parser := \<lparr>buffer = bodyAt \<lparr>bufferID = nextBuffer pp, offset = 0\<rparr>,
                              currentIndex = 3\<rparr>,
                  outBuffer := bodyAt \<lparr>bufferID = nextBuffer pp, offset = 0\<rparr>\<rparr>)
      else Inl OutOfFuel)"
    using erl_loop_keeps[of "erl_init (bodyAt \<lparr>bufferID = nextBuffer pp, offset = 0\<rparr>)
                  {Some 20, Some 10} (pp\<lparr>nextBuffer := Suc (nextBuffer pp)\<rparr>)" refLexer f]
      bodyAt_kept[OF tabp, of "\<lparr>bufferID = nextBuffer pp, offset = 0\<rparr>"]
    by (simp add: erl_init_sel setBuffer_def) (simp add: bodyAt_def)
  define st2 where "st2 = st0\<lparr>parser := p1,
      outBuffer := bodyAt \<lparr>bufferID = nextBuffer pp, offset = 0\<rparr>, expandedSomething := True,
      alreadyExpanded := {Some 10}, erl_pp := pp\<lparr>nextBuffer := Suc (nextBuffer pp)\<rparr>\<rparr>"
  have endrun: "erl_loop refLexer f st2 = (if 0 < f then Inr (True, st2) else Inl OutOfFuel)"
    using erl_loop_keeps[of st2 refLexer f]
    by (cases st0) (simp add: st2_def p1_def)
  have syn: "syntaxPtr (objectMacro 20 ''AA'' [usage ''A'', pasteTok, ident ''A'']) = Some 20"
    by (simp add: syntaxPtr_def objectMacro_def)
  have ae: "alreadyExpanded (st0\<lparr>parser := p1\<rparr>) = {Some 10}" "erl_pp (st0\<lparr>parser := p1\<rparr>) = pp"
    "outBuffer (st0\<lparr>parser := p1\<rparr>) = []"
    by (simp_all add: st0_def erl_init_def)
  have unfold: "erl_loop refLexer (Suc f) st0 =
      (if 3 < f then erl_loop refLexer f st2 else Inl OutOfFuel)"
    by (simp add: erl_loop.simps pn lk expand_AA[OF X] syn ae subrun erl_tokens_def erl_init_sel
          st2_def)
  show ?thesis
  proof (cases "3 < f")
    case False
    then show ?thesis using unfold Suc by (simp add: expandReplacementList_def st0_def)
  next
    case True
    then have "erl_loop refLexer (Suc f) st0 = Inr (True, st2)" using unfold endrun by simp
    then show ?thesis using Suc
      by (simp add: expandReplacementList_def st0_def[symmetric] st2_def erl_tokens_def)
  qed
qed

lemma ops_round:
  "applyMacroOps refLexer fuel (bodyAt l) [] ds = Inr (True, [withLocation (usage ''AA'') l], ds)"
  by (simp add: bodyAt_def tok_defs ops_defs reflex_defs applyMacroOps_loop.simps Let_def
      withLocation_def)

lemma isAA_round: "isAA (withLocation (usage ''AA'') l)"
  by (simp add: isAA_def withLocation_def usage_def mkToken_def)

lemma loop_diverges:
  "isAA X \<Longrightarrow> macros pp = tabT \<Longrightarrow>
   handleTopLevel_loop refLexer fuel [X] {Some 10} pp = Inl OutOfFuel"
proof (induction fuel arbitrary: X pp)
  case 0
  then show ?case by (simp add: handleTopLevel_loop.simps)
next
  case (Suc fuel)
  from erl_round[OF Suc.prems, of fuel]
  show ?case
  proof
    assume "expandReplacementList refLexer fuel [X] {Some 10} pp = Inl OutOfFuel"
    then show ?thesis by (simp add: handleTopLevel_loop.simps)
  next
    assume r: "expandReplacementList refLexer fuel [X] {Some 10} pp
           = Inr (True, bodyAt \<lparr>bufferID = nextBuffer pp, offset = 0\<rparr>, True, {Some 10},
                  pp\<lparr>nextBuffer := Suc (nextBuffer pp)\<rparr>)"
    have "handleTopLevel_loop refLexer fuel [withLocation (usage ''AA'') \<lparr>bufferID = nextBuffer pp, offset = 0\<rparr>]
            {Some 10}
            (pp\<lparr>nextBuffer := Suc (nextBuffer pp),
                expandedTokens := [withLocation (usage ''AA'') \<lparr>bufferID = nextBuffer pp, offset = 0\<rparr>],
                diagnostics := diagnostics pp\<rparr>) = Inl OutOfFuel"
      using Suc.prems(2) by (intro Suc.IH isAA_round) simp
    then show ?thesis by (simp add: handleTopLevel_loop.simps r ops_round)
  qed
qed

text \<open>Claim C2 at the definitions \<open>`define T `A``A\<close> and \<open>`define AA `A``A\<close> and the
  top-level usage \<open>`T\<close>. The paste forms the usage \<open>`AA\<close>; the next round of the loop
  expands it, removing \<open>AA\<close> from \<open>alreadyExpanded\<close> again after the nested expansion, and
  the paste forms \<open>`AA\<close> anew: every round makes progress and no round sees a macro that
  is being expanded. The loop does not end: whatever the number of rounds allowed, the call
  does not return within them.\<close>

theorem paste_recursion_never_returns:
  "handleTopLevelMacro refLexer fuel (usage ''T'') (ppWith tabT []) = Inl OutOfFuel"
proof -
  define pp where "pp = ppWith tabT []"
  define l where "l = \<lparr>bufferID = nextBuffer pp, offset = 0\<rparr>"
  define pp2 where "pp2 = pp\<lparr>nextBuffer := Suc (nextBuffer pp)\<rparr>"
  have tab2: "macros pp2 = tabT" by (simp add: pp2_def pp_def ppWith_def)
  have fm: "findMacro pp (usage ''T'') = Inr (objectMacro 10 ''T'' [usage ''A'', pasteTok, ident ''A''])"
    by (simp add: pp_def ppWith_def findMacro_def valueText_def usage_def mkToken_def substr_def
        tabT_def backslash_def)
  have ex: "expandMacro refLexer fuel (objectMacro 10 ''T'' [usage ''A'', pasteTok, ident ''A''])
      (newExpansion (usage ''T'') True) None pp
     = Inr (True, \<lparr>expDest = bodyAt l, usageSite = usage ''T'', isTopLevel = True, any = True\<rparr>, pp2)"
    by (simp add: expandMacro_def expandMacro_with_def objectMacro_def isIntrinsic_def
      newExpansion_def createExpansionLoc_def appendTok_def adjustLoc_def appendAt_def bodyAt_def
      usage_def pasteTok_def ident_def mkToken_def NoLocation_def withTrivia_def withLocation_def
      locPlus_def locDiff_def Let_def l_def pp2_def)
  have loop: "handleTopLevel_loop refLexer fuel (bodyAt l) {Some 10} pp2 = Inl OutOfFuel"
  proof (cases fuel)
    case 0
    then show ?thesis by (simp add: handleTopLevel_loop.simps)
  next
    case (Suc f)
    have erl: "erl_loop refLexer f (erl_init (bodyAt l) {Some 10} pp2) =
       (if 3 < f then Inr (True, (erl_init (bodyAt l) {Some 10} pp2)
                                 \<lparr>parser := \<lparr>buffer = bodyAt l, currentIndex = 3\<rparr>,
                                  outBuffer := bodyAt l\<rparr>)
        else Inl OutOfFuel)"
      using erl_loop_keeps[of "erl_init (bodyAt l) {Some 10} pp2" refLexer f]
        bodyAt_kept[OF tab2, of l]
      by (simp add: erl_init_def setBuffer_def bodyAt_def)
    show ?thesis
    proof (cases "3 < f")
      case False
      then show ?thesis using Suc erl
        by (simp add: handleTopLevel_loop.simps expandReplacementList_def)
    next
      case True
      have "handleTopLevel_loop refLexer f [withLocation (usage ''AA'') l] {Some 10}
              (pp2\<lparr>expandedTokens := [withLocation (usage ''AA'') l],
                   diagnostics := diagnostics pp2\<rparr>) = Inl OutOfFuel"
        using tab2 by (intro loop_diverges isAA_round) simp
      then show ?thesis using Suc erl True
        by (simp add: handleTopLevel_loop.simps expandReplacementList_def erl_tokens_def
            erl_init_def setBuffer_def ops_round)
    qed
  qed
  have "valid (objectMacro 10 ''T'' [usage ''A'', pasteTok, ident ''A''])"
    "\<not> needsArgs (objectMacro 10 ''T'' [usage ''A'', pasteTok, ident ''A''])"
    "\<not> isIntrinsic (objectMacro 10 ''T'' [usage ''A'', pasteTok, ident ''A''])"
    "syntaxPtr (objectMacro 10 ''T'' [usage ''A'', pasteTok, ident ''A'']) = Some 10"
    by (simp_all add: valid_def needsArgs_def isIntrinsic_def syntaxPtr_def objectMacro_def)
  moreover have "currentMacroToken pp = None" by (simp add: pp_def ppWith_def)
  ultimately show ?thesis
    unfolding pp_def[symmetric]
    by (simp add: handleTopLevelMacro_def fm ex loop)
qed

subsection \<open>Recursion through an argument\<close>

lemma expand_B:
  "expandMacro_with refLexer ea (objectMacro 20 ''B'' [usage ''A'', plainTok OpenParenthesis ''('',
                         usage ''B'', plainTok CloseParenthesis '')''])
      (newExpansion (withLocation (usage ''B'') l) False) None pp
     = Inr (True, \<lparr>expDest = bodyB \<lparr>bufferID = nextBuffer pp, offset = 0\<rparr>,
                   usageSite = withLocation (usage ''B'') l,
                   isTopLevel = False, any = True\<rparr>, pp\<lparr>nextBuffer := Suc (nextBuffer pp)\<rparr>)"
  by (simp add: expandMacro_with_def objectMacro_def isIntrinsic_def newExpansion_def
      createExpansionLoc_def appendTok_def adjustLoc_def appendAt_def bodyB_def usage_def
      plainTok_def ident_def mkToken_def NoLocation_def withTrivia_def withLocation_def
      locPlus_def locDiff_def Let_def)

lemma parse_B:
  "parseActualArgumentList (withLocation (usage ''A'') l)
      \<lparr>buffer = bodyB l, currentIndex = Suc 0\<rparr> pp
   = Inr (Some \<lparr>openParen = withLocation (plainTok OpenParenthesis ''('') l,
                 args = [[withLocation (usage ''B'') l]],
                 closeParen = withLocation (plainTok CloseParenthesis '')'') l\<rparr>,
          \<lparr>buffer = bodyB l, currentIndex = 4\<rparr>, pp)"
  by (simp add: parseActualArgumentList_def parseArgumentList_loop.simps parseTokenList_def
      parseTokenList_loop.simps parser_peek_def parser_consume_def parser_expect_def
      parser_next_def bodyB_def withLocation_def usage_def plainTok_def mkToken_def Let_def
      isOnSameLine_def getDelimCloseKind_def)

lemma lookup_B:
  "macros (erl_pp st) = tabArg \<Longrightarrow> alreadyExpanded st = {} \<Longrightarrow>
   erl_lookup (withLocation (usage ''B'') l) st = Inr (Expand (objectMacro 20 ''B'' bodyOfB) None st)"
  by (simp add: erl_lookup_def findMacro_def valueText_def substr_def tabArg_def bodyOfB_def
      objectMacro_def valid_def isIntrinsic_def syntaxPtr_def needsArgs_def backslash_def
      grave_def withLocation_def usage_def mkToken_def)

lemma lookup_A:
  assumes "macros (erl_pp st) = tabArg" "Some 10 \<notin> alreadyExpanded st"
    "parser st = \<lparr>buffer = bodyB l, currentIndex = Suc 0\<rparr>"
  shows "erl_lookup (withLocation (usage ''A'') l) st =
     Inr (Expand (functionMacro 10 ''A'' [''x''] [ident ''x''])
            (Some \<lparr>openParen = withLocation (plainTok OpenParenthesis ''('') l,
                 args = [[withLocation (usage ''B'') l]],
                 closeParen = withLocation (plainTok CloseParenthesis '')'') l\<rparr>)
            (st\<lparr>parser := \<lparr>buffer = bodyB l, currentIndex = 4\<rparr>, erl_pp := erl_pp st\<rparr>))"
proof -
  have fm: "findMacro (erl_pp st) (withLocation (usage ''A'') l)
      = Inr (functionMacro 10 ''A'' [''x''] [ident ''x''])"
    using assms(1)
    by (simp add: findMacro_def valueText_def substr_def tabArg_def backslash_def grave_def
        withLocation_def usage_def mkToken_def)
  have k: "kind (withLocation (usage ''A'') l) = Directive"
    "directiveKind (withLocation (usage ''A'') l) = MacroUsage"
    by (simp_all add: withLocation_def usage_def mkToken_def)
  have m: "valid (functionMacro 10 ''A'' [''x''] [ident ''x''])"
    "\<not> isIntrinsic (functionMacro 10 ''A'' [''x''] [ident ''x''])"
    "syntaxPtr (functionMacro 10 ''A'' [''x''] [ident ''x'']) = Some 10"
    "needsArgs (functionMacro 10 ''A'' [''x''] [ident ''x''])"
    by (simp_all add: functionMacro_def valid_def isIntrinsic_def syntaxPtr_def needsArgs_def)
  show ?thesis
    using assms(2) by (simp add: erl_lookup_def fm k m assms(3) parse_B)
qed

lemma expand_A_arg:
  assumes "ea [withLocation (usage ''B'') l] (pp\<lparr>nextBuffer := Suc (nextBuffer pp)\<rparr>) = Inl OutOfFuel"
  shows "expandMacro_with refLexer ea (functionMacro 10 ''A'' [''x''] [ident ''x''])
      (newExpansion X False)
      (Some \<lparr>openParen = withLocation (plainTok OpenParenthesis ''('') l,
                 args = [[withLocation (usage ''B'') l]],
                 closeParen = withLocation (plainTok CloseParenthesis '')'') l\<rparr>) pp
     = Inl OutOfFuel"
  using assms
  by (simp add: expandMacro_with_def functionMacro_def isIntrinsic_def newExpansion_def
      createExpansionLoc_def expandBodyToken_def
      handleToken_def formalText_def splitIndex_def isKeyword_def
      valueText_def backslash_def isOnSameLine_def
      ident_def mkToken_def NoLocation_def withTrivia_def withLocation_def
      locPlus_def locDiff_def Let_def)

lemma arg_recursion:
  "(\<forall>l pp ae. macros pp = tabArg \<longrightarrow> Some 10 \<notin> ae \<longrightarrow>
       erl_loop refLexer fuel (erl_init (bodyB l) ae pp) = Inl OutOfFuel) \<and>
   (\<forall>l pp. macros pp = tabArg \<longrightarrow>
       erl_loop refLexer fuel (erl_init [withLocation (usage ''B'') l] {} pp) = Inl OutOfFuel)"
proof (induction fuel)
  case 0
  show ?case by (simp add: erl_loop.simps)
next
  case (Suc fuel)
  have body: "erl_loop refLexer (Suc fuel) (erl_init (bodyB l) ae pp) = Inl OutOfFuel"
    if tab: "macros pp = tabArg" and ae: "Some 10 \<notin> ae" for l pp ae
  proof -
    define st0 where "st0 = erl_init (bodyB l) ae pp"
    define p1 where "p1 = \<lparr>buffer = bodyB l, currentIndex = Suc 0\<rparr>"
    have pn: "parser_next (parser st0) = (Some (withLocation (usage ''A'') l), p1)"
      by (simp add: st0_def erl_init_def setBuffer_def parser_next_def p1_def bodyB_def)
    have lk: "erl_lookup (withLocation (usage ''A'') l) (st0\<lparr>parser := p1\<rparr>) =
      Inr (Expand (functionMacro 10 ''A'' [''x''] [ident ''x''])
            (Some \<lparr>openParen = withLocation (plainTok OpenParenthesis ''('') l,
                 args = [[withLocation (usage ''B'') l]],
                 closeParen = withLocation (plainTok CloseParenthesis '')'') l\<rparr>)
            (st0\<lparr>parser := \<lparr>buffer = bodyB l, currentIndex = 4\<rparr>, erl_pp := pp\<rparr>))"
      using lookup_A[of "st0\<lparr>parser := p1\<rparr>" l] tab ae
      by (simp add: st0_def erl_init_sel p1_def)
    have "macros (pp\<lparr>nextBuffer := Suc (nextBuffer pp)\<rparr>) = tabArg" using tab by simp
    with Suc.IH have arg: "erl_loop refLexer fuel
        (erl_init [withLocation (usage ''B'') l] {} (pp\<lparr>nextBuffer := Suc (nextBuffer pp)\<rparr>))
        = Inl OutOfFuel" by blast
    show ?thesis
      unfolding st0_def[symmetric]
      by (simp add: erl_loop.simps pn lk expand_A_arg arg)
  qed
  have usage: "erl_loop refLexer (Suc fuel) (erl_init [withLocation (usage ''B'') l] {} pp)
      = Inl OutOfFuel"
    if tab: "macros pp = tabArg" for l pp
  proof -
    define st0 where "st0 = erl_init [withLocation (usage ''B'') l] {} pp"
    define p1 where "p1 = \<lparr>buffer = [withLocation (usage ''B'') l], currentIndex = Suc 0\<rparr>"
    have pn: "parser_next (parser st0) = (Some (withLocation (usage ''B'') l), p1)"
      by (simp add: st0_def erl_init_def setBuffer_def parser_next_def p1_def)
    have lk: "erl_lookup (withLocation (usage ''B'') l) (st0\<lparr>parser := p1\<rparr>)
        = Inr (Expand (objectMacro 20 ''B'' bodyOfB) None (st0\<lparr>parser := p1\<rparr>))"
      using lookup_B[of "st0\<lparr>parser := p1\<rparr>" l] tab by (simp add: st0_def erl_init_sel)
    have "macros (pp\<lparr>nextBuffer := Suc (nextBuffer pp)\<rparr>) = tabArg" using tab by simp
    with Suc.IH have sub: "erl_loop refLexer fuel
        (erl_init (bodyB \<lparr>bufferID = nextBuffer pp, offset = 0\<rparr>) {Some 20}
           (pp\<lparr>nextBuffer := Suc (nextBuffer pp)\<rparr>)) = Inl OutOfFuel" by simp
    have syn: "syntaxPtr (objectMacro 20 ''B'' bodyOfB) = Some 20"
      by (simp add: syntaxPtr_def objectMacro_def)
    have sel: "erl_pp (st0\<lparr>parser := p1\<rparr>) = pp" "alreadyExpanded (st0\<lparr>parser := p1\<rparr>) = {}"
      by (simp_all add: st0_def erl_init_sel)
    show ?thesis
      unfolding st0_def[symmetric]
      by (simp add: erl_loop.simps pn lk expand_B[unfolded bodyOfB_def[symmetric]] syn sel sub)
  qed
  from body usage show ?case by blast
qed

text \<open>Claim C1 at the definitions \<open>`define A(x) x\<close> and \<open>`define B `A(`B)\<close> and the top-level
  usage \<open>`B\<close>. The body of \<open>B\<close> uses \<open>B\<close> in the argument of \<open>A\<close>. \<open>expandMacro\<close> expands
  the argument with a new, empty \<open>alreadyExpanded\<close> set, so the usage of \<open>B\<close> in it is
  expanded although \<open>B\<close> is being expanded, and its body holds the same argument again: the
  check of \<open>expandReplacementList\<close> never sees a macro of its set, no \<open>RecursiveMacro\<close> is
  issued, and the recursion does not end: whatever the number of iterations allowed, the
  call does not return within them.\<close>

theorem argument_recursion_never_returns:
  "handleTopLevelMacro refLexer fuel (usage ''B'') (ppWith tabArg []) = Inl OutOfFuel"
proof -
  define pp where "pp = ppWith tabArg []"
  define pp2 where "pp2 = pp\<lparr>nextBuffer := Suc (nextBuffer pp)\<rparr>"
  have tab2: "macros pp2 = tabArg" by (simp add: pp2_def pp_def ppWith_def)
  have fm: "findMacro pp (usage ''B'') = Inr (objectMacro 20 ''B'' bodyOfB)"
    by (simp add: pp_def ppWith_def findMacro_def valueText_def usage_def mkToken_def substr_def
        tabArg_def backslash_def bodyOfB_def)
  have "usage ''B'' = withLocation (usage ''B'') NoLocation"
    by (simp add: withLocation_def usage_def mkToken_def)
  then have ex: "expandMacro refLexer fuel (objectMacro 20 ''B'' bodyOfB)
      (newExpansion (usage ''B'') True) None pp
     = Inr (True, \<lparr>expDest = bodyB \<lparr>bufferID = nextBuffer pp, offset = 0\<rparr>,
                   usageSite = usage ''B'', isTopLevel = True, any = True\<rparr>, pp2)"
    by (simp add: expandMacro_def expandMacro_with_def objectMacro_def isIntrinsic_def
      newExpansion_def createExpansionLoc_def appendTok_def adjustLoc_def appendAt_def bodyB_def
      bodyOfB_def usage_def plainTok_def mkToken_def NoLocation_def withTrivia_def
      withLocation_def locPlus_def locDiff_def Let_def pp2_def)
  have loop: "handleTopLevel_loop refLexer fuel (bodyB \<lparr>bufferID = nextBuffer pp, offset = 0\<rparr>)
      {Some 20} pp2 = Inl OutOfFuel"
  proof (cases fuel)
    case 0
    then show ?thesis by (simp add: handleTopLevel_loop.simps)
  next
    case (Suc f)
    have "erl_loop refLexer f (erl_init (bodyB \<lparr>bufferID = nextBuffer pp, offset = 0\<rparr>)
        {Some 20} pp2) = Inl OutOfFuel"
      using arg_recursion[of f] tab2 by simp
    then show ?thesis using Suc
      by (simp add: handleTopLevel_loop.simps expandReplacementList_def)
  qed
  have "valid (objectMacro 20 ''B'' bodyOfB)" "\<not> needsArgs (objectMacro 20 ''B'' bodyOfB)"
    "\<not> isIntrinsic (objectMacro 20 ''B'' bodyOfB)"
    "syntaxPtr (objectMacro 20 ''B'' bodyOfB) = Some 20"
    by (simp_all add: valid_def needsArgs_def isIntrinsic_def syntaxPtr_def objectMacro_def)
  moreover have "currentMacroToken pp = None" by (simp add: pp_def ppWith_def)
  ultimately show ?thesis
    unfolding pp_def[symmetric]
    by (simp add: handleTopLevelMacro_def fm ex loop)
qed

section \<open>Diagnostics of the macro engine\<close>

text \<open>Every function of the engine only adds diagnostics, and \<open>RecursiveMacro\<close> is added only
  by the check of \<open>expandReplacementList\<close>, which returns false at once. The lemmas follow
  the call graph from the parser up to \<open>expandReplacementList\<close>.\<close>

subsection \<open>Basic facts\<close>

lemma growsI:
  "macros pp' = macros pp \<Longrightarrow> currentMacroToken pp' = currentMacroToken pp \<Longrightarrow>
   diagnostics pp' = diagnostics pp @ ds \<Longrightarrow> noRecursive (if ok then ds else butlast ds) \<Longrightarrow>
   grows ok pp pp'"
  by (cases ok) (simp_all add: grows_def newDiags_def)


lemma noRecursive_append [simp]: "noRecursive (xs @ ys) = (noRecursive xs \<and> noRecursive ys)"
  by (auto simp: noRecursive_def)

lemma noRecursive_Nil [simp]: "noRecursive []"
  by (simp add: noRecursive_def)


lemma grows_refl [simp]: "grows ok pp pp"
  by (rule growsI[where ds="[]"]) simp_all






lemma grows_lexerTokens [simp]: "grows ok pp (pp\<lparr>lexerTokens := x\<rparr>)"
  by (rule growsI[where ds="[]"]) simp_all

lemma grows_nextBuffer [simp]: "grows ok pp (pp\<lparr>nextBuffer := x\<rparr>)"
  by (rule growsI[where ds="[]"]) simp_all

lemma mkDiag_code [simp]: "code (mkDiag c l) = c" "code (mkDiagArg c l a) = c"
  by (simp_all add: mkDiag_def mkDiagArg_def)


subsection \<open>The argument parser\<close>









subsection \<open>Expansion of one macro\<close>














subsection \<open>Nested expansion\<close>






section \<open>The tokens that a macro usage emits\<close>

subsection \<open>The diagnostics of the paste and stringify pass\<close>




lemma opsDiags_refl [simp]: "opsDiags st st"
  by (simp add: opsDiags_def)






subsection \<open>The origin of the tokens of the pass\<close>

lemma withTrivia_kind [simp]: "kind (withTrivia t tr) = kind t"
  by (simp add: withTrivia_def)

lemma withTrivia_twice [simp]: "withTrivia (withTrivia t a) b = withTrivia t b"
  by (simp add: withTrivia_def)


















subsection \<open>The top level\<close>








end
